theory Spec2Isabelle
  imports Complex_Main "HOL-Library.Word" "HOL-Library.AList" "HOL-Library.Multiset"
begin

unbundle bit_operations_syntax

section \<open>Wire codec: calculate_checksum\<close>

text \<open>
  A \<open>std::string\<close> is a sequence of 8-bit bytes; HOL's \<^typ>\<open>char\<close> is an 8-bit
  character, so \<^typ>\<open>string\<close> carries the bytes as they are. \<open>of_char\<close> reads a byte as
  a number (\<open>uint8_t\<close>).
\<close>

text \<open>The test \<open>bytes[i] < '0' || bytes[i] > '9'\<close> of the pre-processing loop.\<close>

definition not_digit :: "char \<Rightarrow> bool" where
  "not_digit b = ((of_char b :: nat) < 48 \<or> (of_char b :: nat) > 57)"

text \<open>
  The guard \<open>i > 3 && bytes[i - 3] == 'c' && bytes[i - 1] == ':' && bytes[i - 4] == '"'
  && bytes[i - 2] == '"'\<close>, without its \<open>!at_c0\<close> conjunct.
\<close>

definition c_colon_before :: "string \<Rightarrow> nat \<Rightarrow> bool" where
  "c_colon_before bytes i =
     (i > 3 \<and> bytes ! (i - 3) = CHR ''c'' \<and> bytes ! (i - 1) = CHR '':'' \<and>
      bytes ! (i - 4) = CHR 0x22 \<and> bytes ! (i - 2) = CHR 0x22)"

text \<open>
  One iteration of the first \<open>for\<close> loop. The state is the flag \<open>at_c0\<close> and the bytes
  written to \<open>data_bytes\<close> so far (\<open>data_bytes_i\<close> is their number).
\<close>

fun scan_step :: "string \<Rightarrow> nat \<Rightarrow> bool \<times> string \<Rightarrow> bool \<times> string" where
  "scan_step bytes i (at_c0, data_bytes) =
     (if \<not> at_c0 \<and> c_colon_before bytes i then (True, data_bytes @ [CHR ''0''])
      else if at_c0 then
        (if not_digit (bytes ! i) then (False, data_bytes @ [bytes ! i])
         else (True, data_bytes))
      else (False, data_bytes @ [bytes ! i]))"

text \<open>The whole first loop, \<open>for (size_t i = 0; i < len; ++i)\<close>.\<close>

definition preprocess :: "string \<Rightarrow> string" where
  "preprocess bytes = snd (fold (scan_step bytes) [0..<length bytes] (False, []))"

text \<open>
  The second loop, \<open>for (size_t i = 0; i < len; i += 2)\<close>, over the derived bytes.
  \<open>chunk\<close> and \<open>checksum\<close> are \<open>uint16_t\<close>.
\<close>

function xor_loop :: "string \<Rightarrow> nat \<Rightarrow> 16 word \<Rightarrow> 16 word" where
  "xor_loop data_bytes i checksum =
     (if i < length data_bytes then
        (let chunk = push_bit 8 (of_char (data_bytes ! i) :: 16 word);
             chunk = (if i + 1 < length data_bytes
                      then chunk OR of_char (data_bytes ! (i + 1)) else chunk)
         in xor_loop data_bytes (i + 2) (checksum XOR chunk))
      else checksum)"
  by pat_completeness auto
termination
  by (relation "measure (\<lambda>(d, i, c). length d - i)") auto

declare xor_loop.simps [simp del]

text \<open>What the function returns for the derived bytes: \<open>checksum & 0xFFFF\<close>.\<close>

definition fold_checksum :: "string \<Rightarrow> 16 word" where
  "fold_checksum data_bytes = xor_loop data_bytes 0 0 AND 0xFFFF"

text \<open>
  \<open>data_bytes\<close> is a local array of 1024 bytes. A derived sequence longer than that is
  written past its end, which C++ leaves undefined: the model returns \<open>None\<close> there.
\<close>

definition calculate_checksum :: "string \<Rightarrow> 16 word option" where
  "calculate_checksum data =
     (let data_bytes = preprocess data in
      if length data_bytes \<le> 1024 then Some (fold_checksum data_bytes) else None)"

subsection \<open>The checksum rules as the specification words them\<close>

text \<open>
  The specification's masking rule: find the text \<open>"c":\<close>; if the byte after the colon
  starts a run of digits, that run becomes a single \<open>0\<close>; this happens once, and every
  byte after it passes through.
\<close>

fun spec_mask :: "string \<Rightarrow> string" where
  "spec_mask [] = []"
| "spec_mask (b # bs) =
     (if take 4 (b # bs) = [CHR 0x22, CHR ''c'', CHR 0x22, CHR '':''] \<and>
         drop 3 bs \<noteq> [] \<and> \<not> not_digit (hd (drop 3 bs))
      then take 4 (b # bs) @ [CHR ''0''] @ dropWhile (\<lambda>x. \<not> not_digit x) (drop 3 bs)
      else b # spec_mask bs)"

text \<open>
  The specification's folding rule: big-endian 16-bit chunks, the high byte from the even
  index and the low byte from the odd one, a last unpaired byte with a zero low byte.
\<close>

fun be_chunks :: "string \<Rightarrow> 16 word list" where
  "be_chunks [] = []"
| "be_chunks [h] = [push_bit 8 (of_char h)]"
| "be_chunks (h # l # rest) = (push_bit 8 (of_char h) OR of_char l) # be_chunks rest"

definition spec_checksum :: "string \<Rightarrow> 16 word" where
  "spec_checksum data_bytes = take_bit 16 (fold (XOR) (be_chunks data_bytes) 0)"

text \<open>
  What the pre-processing loop does, position by position: the byte at a position that has
  \<open>"c":\<close> right before it is replaced by \<open>0\<close>; a digit reached from such a position
  through digits only is dropped; every other byte is copied.
\<close>

definition in_run :: "string \<Rightarrow> nat \<Rightarrow> bool" where
  "in_run bytes i =
     (\<exists>j \<in> set [0..<i]. c_colon_before bytes j \<and>
        (\<forall>k \<in> set [Suc j..<i]. \<not> not_digit (bytes ! k)))"

definition out_at :: "string \<Rightarrow> nat \<Rightarrow> string" where
  "out_at bytes i =
     (if c_colon_before bytes i then [CHR ''0'']
      else if in_run bytes i \<and> \<not> not_digit (bytes ! i) then []
      else [bytes ! i])"

text \<open>The four bytes \<open>"c":\<close> that the pre-processing loop looks for.\<close>

definition c_key :: string where
  "c_key = [CHR 0x22, CHR ''c'', CHR 0x22, CHR '':'']"

section \<open>Double-precision numbers\<close>

text \<open>
  A C++ \<open>double\<close> is modelled by the real number it holds. Every conversion to
  \<open>double\<close> and every arithmetic operation on doubles gives the double nearest to the
  exact result, halves going to the even significand (IEEE 754 binary64 in the default
  rounding mode): the exact result is scaled by the unit in the last place of its binade,
  which is \<open>2^(e - 52)\<close> for the exponent \<open>e\<close> of the number and \<open>2^(-1074)\<close> below
  \<open>2^(-1022)\<close>, and rounded to an integer there. The finite doubles only: a result beyond
  the largest finite double, about \<open>1.8e308\<close>, stands for itself rounded to 53 bits, not
  for an infinity.
\<close>

definition round_half_even :: "real \<Rightarrow> int" where
  "round_half_even y =
     (let f = \<lfloor>y\<rfloor> in
      if y - of_int f < 1 / 2 then f
      else if y - of_int f > 1 / 2 then f + 1
      else if even f then f else f + 1)"

definition to_double :: "real \<Rightarrow> real" where
  "to_double x =
     (if x = 0 then 0
      else
        (let e = max \<lfloor>log 2 \<bar>x\<bar>\<rfloor> (- 1022);
             ulp = 2 powi (e - 52)
         in ulp * of_int (round_half_even (x / ulp))))"

text \<open>The exponent that \<open>to_double\<close> scales by, and the real numbers that are doubles.\<close>

definition expo :: "real \<Rightarrow> int" where
  "expo x = max \<lfloor>log 2 \<bar>x\<bar>\<rfloor> (- 1022)"

definition is_double :: "real \<Rightarrow> bool" where
  "is_double x = (to_double x = x)"

section \<open>Outcomes of a call\<close>

text \<open>
  The exceptions of the JSON library that the engine can meet: \<open>parse_error\<close> from
  \<open>json::parse\<close>, and \<open>type_error\<close> with its number (302: a value converted to a type
  it does not hold; 305: \<open>operator[]\<close> with a string key on a value that is neither an
  object nor null). Both derive from \<open>std::exception\<close>.
\<close>

datatype exn = parse_error | type_error nat

text \<open>
  A call returns a value, leaves by an exception, waits in a blocking system call with
  nothing to wake it, or runs into behaviour that C++ leaves undefined.
\<close>

datatype 'a result = Ok 'a | Throw exn | Blocked | Undefined

fun bind :: "'a result \<Rightarrow> ('a \<Rightarrow> 'b result) \<Rightarrow> 'b result" where
  "bind (Ok x) f = f x"
| "bind (Throw e) f = Throw e"
| "bind Blocked f = Blocked"
| "bind Undefined f = Undefined"

section \<open>JSON values\<close>

text \<open>
  The values of the JSON library. An object is kept as its list of members. The
  library's signed and unsigned integer numbers are one constructor here; a
  floating-point number is the real number that its \<open>double\<close> holds (a JSON number is
  finite, so there is no NaN to order).
\<close>

datatype json =
    JNull
  | JBool bool
  | JInt int
  | JFloat real
  | JString string
  | JArray "json list"
  | JObject "(string \<times> json) list"

text \<open>\<open>j.contains(key)\<close>: false on everything but an object with that member.\<close>

fun json_contains :: "json \<Rightarrow> string \<Rightarrow> bool" where
  "json_contains (JObject members) key = (map_of members key \<noteq> None)"
| "json_contains _ key = False"

text \<open>
  Reading \<open>j[key]\<close> on a non-const value: the member; null where an object has no such
  member or the value is null (the library inserts a null member); \<open>type_error\<close> 305 on
  any other value.
\<close>

fun at_key :: "json \<Rightarrow> string \<Rightarrow> json result" where
  "at_key (JObject members) key =
     Ok (case map_of members key of Some v \<Rightarrow> v | None \<Rightarrow> JNull)"
| "at_key JNull key = Ok JNull"
| "at_key _ key = Throw (type_error 305)"

text \<open>The assignment \<open>j[key] = v\<close>: null becomes an object first.\<close>

fun set_key :: "json \<Rightarrow> string \<Rightarrow> json \<Rightarrow> json result" where
  "set_key (JObject members) key v = Ok (JObject (AList.update key v members))"
| "set_key JNull key v = Ok (JObject [(key, v)])"
| "set_key _ key v = Throw (type_error 305)"

text \<open>A conversion of a \<open>double\<close> to an integer type drops the fraction.\<close>

definition trunc :: "real \<Rightarrow> int" where
  "trunc x = (if 0 \<le> x then \<lfloor>x\<rfloor> else \<lceil>x\<rceil>)"

text \<open>
  The implicit conversions \<open>double x = j\<close>, \<open>int x = j\<close>, \<open>uint16_t x = j\<close>,
  \<open>std::string x = j\<close> and \<open>j.get<uint8_t>()\<close>. A conversion to \<open>double\<close> takes
  numbers only: a stored integer is cast, which rounds it to the nearest double (beyond
  \<open>2^53\<close> not every integer is one), and a stored floating-point number, a double
  already, is handed over as it is. A conversion to an integer type takes numbers and
  booleans and casts the stored value; one to a string takes strings only. Everything
  else is \<open>type_error\<close> 302.
\<close>

fun get_double :: "json \<Rightarrow> real result" where
  "get_double (JInt n) = Ok (to_double (real_of_int n))"
| "get_double (JFloat x) = Ok x"
| "get_double _ = Throw (type_error 302)"

fun get_int :: "json \<Rightarrow> int result" where
  "get_int (JInt n) = Ok (sint (word_of_int n :: 32 word))"
| "get_int (JFloat x) = Ok (trunc x)"
| "get_int (JBool b) = Ok (of_bool b)"
| "get_int _ = Throw (type_error 302)"

fun get_uint16 :: "json \<Rightarrow> 16 word result" where
  "get_uint16 (JInt n) = Ok (word_of_int n)"
| "get_uint16 (JFloat x) = Ok (word_of_int (trunc x))"
| "get_uint16 (JBool b) = Ok (of_bool b)"
| "get_uint16 _ = Throw (type_error 302)"

fun get_uint8 :: "json \<Rightarrow> 8 word result" where
  "get_uint8 (JInt n) = Ok (word_of_int n)"
| "get_uint8 (JFloat x) = Ok (word_of_int (trunc x))"
| "get_uint8 (JBool b) = Ok (of_bool b)"
| "get_uint8 _ = Throw (type_error 302)"

fun get_string :: "json \<Rightarrow> string result" where
  "get_string (JString s) = Ok s"
| "get_string _ = Throw (type_error 302)"

fun is_string :: "json \<Rightarrow> bool" where
  "is_string (JString s) = True"
| "is_string _ = False"

fun is_number :: "json \<Rightarrow> bool" where
  "is_number (JInt n) = True"
| "is_number (JFloat x) = True"
| "is_number _ = False"

text \<open>
  What a range-based \<open>for\<close> over a value visits: the elements of an array, the member
  values of an object, nothing for null, the value itself for any other value.
\<close>

fun items :: "json \<Rightarrow> json list" where
  "items (JArray xs) = xs"
| "items (JObject members) = map snd members"
| "items JNull = []"
| "items j = [j]"

text \<open>
  The parser and the encoder (\<open>json::parse\<close>, \<open>json::dump\<close>) belong to the library; the
  engine is modelled for any parser and any encoder. \<open>None\<close> from the parser stands for
  the \<open>parse_error\<close> it throws.
\<close>

record codec =
  parse :: "string \<Rightarrow> json option"
  encode :: "json \<Rightarrow> string"

section \<open>The socket and its devices\<close>

text \<open>
  A \<open>TalkieDevice\<close>: its \<open>target_ip\<close> (empty until an address is learnt) and its
  \<open>target_port\<close>. \<open>setTargetIP\<close> assigns the field, as its definition in the source
  does; \<open>getTargetIP\<close> returns it.
\<close>

record TalkieDevice =
  target_ip :: string
  target_port :: int

definition setTargetIP :: "string \<Rightarrow> TalkieDevice \<Rightarrow> TalkieDevice" where
  "setTargetIP ip device = device\<lparr>target_ip := ip\<rparr>"

text \<open>
  A datagram waiting in the operating system's receive queue: the sender's IPv4 address
  (the four octets read as one 32-bit number, first octet highest) and the payload.
\<close>

type_synonym datagram = "32 word \<times> string"

text \<open>Where a datagram handed to \<open>sendto\<close> is addressed.\<close>

datatype destination = Broadcast | Unicast string

text \<open>
  Modelled from the spec: the declarations of the members \<open>received_messages\<close> and
  \<open>total_updates\<close> of \<open>TalkieSocket\<close> are in no source file; they are taken as the
  methods use them and as the specification describes them: the pairs of sender address
  and payload that \<open>receiveMessages\<close> returns, and the count \<open>resolved_count\<close> of
  bindings made, which starts at 0.

  The other fields: \<open>devices_by_name\<close>, \<open>sockfd\<close> and \<open>socket_initialized\<close> as the
  class declares them; \<open>inbound\<close>, the receive queue of the one UDP socket;
  \<open>outbound\<close>, the datagrams passed to \<open>sendto\<close>, oldest first, each with the port
  as \<open>htons\<close> takes it (16 bits); \<open>cerr\<close>, the lines written to the error stream.
\<close>

record TalkieSocket =
  socket_initialized :: bool
  sockfd :: int
  devices_by_name :: "string \<rightharpoonup> TalkieDevice"
  received_messages :: "(string \<times> string) list"
  total_updates :: nat
  inbound :: "datagram list"
  outbound :: "(destination \<times> 16 word \<times> string) list"
  cerr :: "string list"

text \<open>A socket as its constructor leaves it, on a given receive queue.\<close>

definition new_socket :: "datagram list \<Rightarrow> TalkieSocket" where
  "new_socket queue =
     \<lparr>socket_initialized = False, sockfd = - 1, devices_by_name = Map.empty,
      received_messages = [], total_updates = 0, inbound = queue, outbound = [],
      cerr = []\<rparr>"

text \<open>
  What the operating system answers to \<open>initialize\<close>: the descriptor \<open>socket\<close> returns
  (negative on failure), and whether \<open>setsockopt\<close> and \<open>bind\<close> succeed.
\<close>

record os_setup =
  socket_fd :: int
  setsockopt_ok :: bool
  bind_ok :: bool

definition initialize :: "os_setup \<Rightarrow> TalkieSocket \<Rightarrow> bool \<times> TalkieSocket" where
  "initialize os sock =
     (if socket_initialized sock then (True, sock)
      else
        (let sock = sock\<lparr>sockfd := socket_fd os\<rparr> in
         if sockfd sock < 0 then
           (False, sock\<lparr>cerr := cerr sock @ [''Failed to create socket. Error: '']\<rparr>)
         else if \<not> setsockopt_ok os then
           (False, sock\<lparr>cerr := cerr sock @ [''Failed to enable broadcast: ''], sockfd := - 1\<rparr>)
         else if \<not> bind_ok os then
           (False, sock\<lparr>cerr := cerr sock @ [''Bind failed: ''], sockfd := - 1\<rparr>)
         else (True, sock\<lparr>socket_initialized := True\<rparr>)))"

definition sendToDevice :: "string \<Rightarrow> int \<Rightarrow> string \<Rightarrow> TalkieSocket \<Rightarrow> bool \<times> TalkieSocket" where
  "sendToDevice ip port message sock =
     (if \<not> socket_initialized sock then (False, sock)
      else (True, sock\<lparr>outbound := outbound sock @ [(Unicast ip, word_of_int port, message)]\<rparr>))"

definition sendBroadcast :: "int \<Rightarrow> string \<Rightarrow> TalkieSocket \<Rightarrow> bool \<times> TalkieSocket" where
  "sendBroadcast port message sock =
     (if \<not> socket_initialized sock then (False, sock)
      else (True, sock\<lparr>outbound := outbound sock @ [(Broadcast, word_of_int port, message)]\<rparr>))"

text \<open>\<open>TalkieDevice::sendMessage\<close>, on the socket the device points to.\<close>

definition sendMessage :: "TalkieDevice \<Rightarrow> string \<Rightarrow> TalkieSocket \<Rightarrow> bool \<times> TalkieSocket" where
  "sendMessage device talkie_message sock =
     (if talkie_message = [] then (False, sock\<lparr>cerr := cerr sock @ [''Error: Empty message'']\<rparr>)
      else if target_ip device = [] then sendBroadcast (target_port device) talkie_message sock
      else sendToDevice (target_ip device) (target_port device) talkie_message sock)"

subsection \<open>Receiving\<close>

text \<open>
  \<open>select\<close> with a zero timeout: readable exactly when a datagram is queued.
\<close>

definition hasMessages :: "TalkieSocket \<Rightarrow> bool" where
  "hasMessages sock =
     (if \<not> socket_initialized sock \<or> sockfd sock = - 1 then False
      else inbound sock \<noteq> [])"

text \<open>
  \<open>recvfrom\<close> with flags 0 on the socket, which \<open>initialize\<close> leaves in blocking mode:
  on an empty queue the call waits; otherwise it takes the oldest datagram and stores at
  most 1023 bytes of it (\<open>sizeof(buffer) - 1\<close>).
\<close>

fun recvfrom :: "datagram list \<Rightarrow> (32 word \<times> string \<times> datagram list) result" where
  "recvfrom [] = Blocked"
| "recvfrom ((addr, payload) # queue) = Ok (addr, take 1023 payload, queue)"

text \<open>\<open>inet_ntop\<close> for \<open>AF_INET\<close>: the four octets in decimal, dots between them.\<close>

definition digit :: "nat \<Rightarrow> char" where
  "digit n = ''0123456789'' ! n"

definition decimal :: "nat \<Rightarrow> string" where
  "decimal n =
     (if n < 10 then [digit n]
      else if n < 100 then [digit (n div 10), digit (n mod 10)]
      else [digit (n div 100), digit (n div 10 mod 10), digit (n mod 10)])"

definition inet_ntop :: "32 word \<Rightarrow> string" where
  "inet_ntop addr =
     decimal (unat (drop_bit 24 addr)) @ ''.'' @
     decimal (unat (take_bit 8 (drop_bit 16 addr))) @ ''.'' @
     decimal (unat (take_bit 8 (drop_bit 8 addr))) @ ''.'' @
     decimal (unat (take_bit 8 addr))"

text \<open>
  The \<open>do ... while (hasMessages())\<close> loop of \<open>receiveMessages\<close>, on the queue left to
  it. The buffer is zeroed and used as a C string, so the stored message ends at its first
  zero byte. A datagram of no bytes ends the loop.
\<close>

fun receive_loop ::
  "datagram list \<Rightarrow> (string \<times> string) list \<Rightarrow> ((string \<times> string) list \<times> datagram list) result" where
  "receive_loop [] received = Blocked"
| "receive_loop ((addr, payload) # queue) received =
     (let buffer = take 1023 payload in
      if length buffer > 0 then
        (let received = received @ [(inet_ntop addr, takeWhile (\<lambda>b. b \<noteq> CHR 0x00) buffer)] in
         if queue \<noteq> [] then receive_loop queue received else Ok (received, queue))
      else Ok (received, queue))"

text \<open>
  \<open>receiveMessages\<close>: it clears \<open>received_messages\<close>, calls \<open>recvfrom\<close> once and drops
  what that call read, then runs the loop.
\<close>

definition receiveMessages :: "TalkieSocket \<Rightarrow> ((string \<times> string) list \<times> TalkieSocket) result" where
  "receiveMessages sock =
     (let sock = sock\<lparr>received_messages := []\<rparr> in
      if \<not> socket_initialized sock \<or> sockfd sock = - 1 then Ok (received_messages sock, sock)
      else
        bind (recvfrom (inbound sock)) (\<lambda>(addr, buffer, queue).
        bind (receive_loop queue []) (\<lambda>(received, queue).
          Ok (received, sock\<lparr>received_messages := received, inbound := queue\<rparr>))))"

text \<open>
  The receive operation as the specification words it: every datagram that is waiting,
  in arrival order, each as the sender's address and the payload.
\<close>

definition spec_poll_inbound :: "datagram list \<Rightarrow> (string \<times> string) list" where
  "spec_poll_inbound queue = map (\<lambda>(addr, payload). (inet_ntop addr, payload)) queue"

section \<open>Peer discovery: updateAddresses\<close>

text \<open>
  The body of the loop over \<open>received_messages\<close>, for one \<open>full_message\<close>. Every
  statement that can throw comes before the first change of the socket, so an exception
  leaves the socket as the message found it. A message longer than the checksum buffer is
  undefined behaviour (see \<open>calculate_checksum\<close>).
\<close>

definition updateAddresses_message ::
  "codec \<Rightarrow> string \<times> string \<Rightarrow> TalkieSocket \<Rightarrow> (bool \<times> TalkieSocket) result" where
  "updateAddresses_message cd full_message sock =
     (let device_address = fst full_message; json_string = snd full_message in
      case parse cd json_string of
        None \<Rightarrow> Throw parse_error
      | Some json_message \<Rightarrow>
          bind (bind (at_key json_message ''f'') get_string) (\<lambda>device_name.
            case devices_by_name sock device_name of
              None \<Rightarrow> Ok (False, sock)
            | Some talkie_device \<Rightarrow>
                if target_ip talkie_device = [] then
                  bind (bind (at_key json_message ''c'') get_uint16) (\<lambda>checksum.
                    case calculate_checksum json_string of
                      None \<Rightarrow> Undefined
                    | Some calculated \<Rightarrow>
                        if checksum = calculated then
                          Ok (True, sock
                            \<lparr>devices_by_name := (devices_by_name sock)
                               (device_name \<mapsto> setTargetIP device_address talkie_device),
                             total_updates := total_updates sock + 1\<rparr>)
                        else Ok (False, sock))
                else Ok (False, sock)))"

text \<open>
  The loop itself. It ends at the first exception, which the \<open>catch\<close> of
  \<open>updateAddresses\<close> receives: the result names the exception (if any), the flag
  \<open>updated_addresses\<close> and the socket at that moment.
\<close>

fun updateAddresses_loop ::
  "codec \<Rightarrow> (string \<times> string) list \<Rightarrow> bool \<Rightarrow> TalkieSocket \<Rightarrow>
     (exn option \<times> bool \<times> TalkieSocket) result" where
  "updateAddresses_loop cd [] updated_addresses sock = Ok (None, updated_addresses, sock)"
| "updateAddresses_loop cd (full_message # rest) updated_addresses sock =
     (case updateAddresses_message cd full_message sock of
        Ok (bound, sock') \<Rightarrow> updateAddresses_loop cd rest (updated_addresses \<or> bound) sock'
      | Throw e \<Rightarrow> Ok (Some e, updated_addresses, sock)
      | Blocked \<Rightarrow> Blocked
      | Undefined \<Rightarrow> Undefined)"

text \<open>
  \<open>updateAddresses\<close>: the \<open>catch (const std::exception&)\<close> writes one line to the error
  stream and returns false, whatever was bound before the exception.
\<close>

definition updateAddresses :: "codec \<Rightarrow> TalkieSocket \<Rightarrow> (bool \<times> TalkieSocket) result" where
  "updateAddresses cd sock =
     (if socket_initialized sock \<and> hasMessages sock then
        bind (receiveMessages sock) (\<lambda>(received, sock).
        bind (updateAddresses_loop cd (received_messages sock) False sock)
          (\<lambda>(thrown, updated_addresses, sock).
            case thrown of
              Some e \<Rightarrow>
                Ok (False, sock\<lparr>cerr := cerr sock @ [''Fatal error while updating Addresses: '']\<rparr>)
            | None \<Rightarrow> Ok (updated_addresses, sock)))
      else Ok (False, sock))"

text \<open>
  \<open>highResolutionSleep\<close> (the branch compiled outside Windows): a \<open>do ... while\<close> loop
  that calls \<open>updateAddresses\<close> in every iteration. The clock decides how many iterations
  there are; the model takes them from the environment as the datagrams that arrive
  before each iteration, the first iteration apart since the body runs at least once.
\<close>

fun sleep_iterations :: "codec \<Rightarrow> datagram list list \<Rightarrow> TalkieSocket \<Rightarrow> TalkieSocket result" where
  "sleep_iterations cd [] sock = Ok sock"
| "sleep_iterations cd (arrived # later) sock =
     bind (updateAddresses cd (sock\<lparr>inbound := inbound sock @ arrived\<rparr>))
       (\<lambda>(updated, sock). sleep_iterations cd later sock)"

definition highResolutionSleep ::
  "codec \<Rightarrow> datagram list \<times> datagram list list \<Rightarrow> TalkieSocket \<Rightarrow> TalkieSocket result" where
  "highResolutionSleep cd arrivals talkie_socket =
     sleep_iterations cd (fst arrivals # snd arrivals) talkie_socket"

text \<open>
  The conditions of a binding as the specification words them, for received bytes that
  name the device \<open>f\<close>: \<open>f\<close> is in the name registry, its device has no address yet, and
  the checksum \<open>c\<close> carried by the message (read as \<open>uint16_t\<close>) is the checksum computed
  over the bytes. \<open>bind_target\<close> is the socket after the binding.
\<close>

definition binding_conditions :: "codec \<Rightarrow> TalkieSocket \<Rightarrow> string \<Rightarrow> string \<Rightarrow> bool" where
  "binding_conditions cd sock bytes f =
     (case devices_by_name sock f of
        None \<Rightarrow> False
      | Some device \<Rightarrow>
          target_ip device = [] \<and>
          (case parse cd bytes of
             None \<Rightarrow> False
           | Some json_message \<Rightarrow>
               (case bind (at_key json_message ''c'') get_uint16 of
                  Ok c \<Rightarrow> calculate_checksum bytes = Some c
                | _ \<Rightarrow> False)))"

definition bind_target :: "TalkieSocket \<Rightarrow> string \<Rightarrow> string \<Rightarrow> TalkieSocket" where
  "bind_target sock f sender_ip =
     sock\<lparr>devices_by_name := (devices_by_name sock)
            (f \<mapsto> (the (devices_by_name sock f))\<lparr>target_ip := sender_ip\<rparr>),
          total_updates := total_updates sock + 1\<rparr>"

text \<open>
  What the specification asks of the bindings between two states of the socket: the
  count of resolved devices has not gone down, and a device that had an address has kept it.
\<close>

definition never_rebinds :: "TalkieSocket \<Rightarrow> TalkieSocket \<Rightarrow> bool" where
  "never_rebinds sock sock' =
     (total_updates sock \<le> total_updates sock' \<and>
      (\<forall>name device. devices_by_name sock name = Some device \<and> target_ip device \<noteq> [] \<longrightarrow>
         devices_by_name sock' name = Some device))"

section \<open>Pins, the report and the engine's state\<close>

text \<open>
  A pin keeps a raw pointer to its device. A device lives inside the map that owns it, so
  a pointer is the map and the key: the socket's \<open>devices_by_name\<close> with a name, or the
  \<open>devices_by_channel\<close> map of one pass of the loop over the files (counted from 0)
  with a channel.
\<close>

datatype device_ref = ByName string | ByChannel nat "8 word"

record TalkiePin =
  time_ms :: real
  talkie_device :: "device_ref option"
  talkie_message :: string
  delay_time_ms :: real

text \<open>The constructor \<open>TalkiePin(time_milliseconds, talkie_device, json_talkie_message)\<close>.\<close>

definition new_pin :: "real \<Rightarrow> device_ref \<Rightarrow> string \<Rightarrow> TalkiePin" where
  "new_pin time_milliseconds device json_talkie_message =
     \<lparr>time_ms = time_milliseconds, talkie_device = Some device,
      talkie_message = json_talkie_message, delay_time_ms = - 1\<rparr>"

record PlayReporting =
  json_processing :: nat
  total_validated :: nat
  total_incorrect :: nat
  total_drag :: real
  total_delay :: real
  maximum_delay :: real
  minimum_delay :: real
  average_delay :: real
  sd_delay :: real

definition new_reporting :: PlayReporting where
  "new_reporting =
     \<lparr>json_processing = 0, total_validated = 0, total_incorrect = 0, total_drag = 0,
      total_delay = 0, maximum_delay = 0, minimum_delay = 0, average_delay = 0,
      sd_delay = 0\<rparr>"

text \<open>
  The state of \<open>PlayList\<close>. \<open>channel_maps\<close> holds the \<open>devices_by_channel\<close> maps that
  exist at the moment: the variable is declared inside the body of the loop over the
  files, so a map exists from its declaration to the end of that pass of the loop.
\<close>

record engine =
  talkie_socket :: TalkieSocket
  channel_maps :: "nat \<rightharpoonup> (8 word \<rightharpoonup> TalkieDevice)"
  play_reporting :: PlayReporting
  talkieToProcess :: "TalkiePin list"
  talkieProcessed :: "TalkiePin list"

text \<open>Following a pin's pointer: \<open>None\<close> when the device it points to no longer exists.\<close>

fun deref :: "engine \<Rightarrow> device_ref \<Rightarrow> TalkieDevice option" where
  "deref eng (ByName name) = devices_by_name (talkie_socket eng) name"
| "deref eng (ByChannel file channel) =
     (case channel_maps eng file of None \<Rightarrow> None | Some devices_by_channel \<Rightarrow> devices_by_channel channel)"

text \<open>A line on the error stream that is written in verbose mode only.\<close>

definition log_verbose :: "bool \<Rightarrow> string \<Rightarrow> engine \<Rightarrow> engine" where
  "log_verbose verbose line eng =
     (if verbose
      then eng\<lparr>talkie_socket := (talkie_socket eng)\<lparr>cerr := cerr (talkie_socket eng) @ [line]\<rparr>\<rparr>
      else eng)"

section \<open>Ingestion\<close>

definition FILE_TYPE :: string where
  "FILE_TYPE = ''Json Midi Player''"

definition FILE_URL :: string where
  "FILE_URL = ''https://github.com/ruiseixasm/JsonMidiPlayer''"

text \<open>
  \<open>message_id\<close>: \<open>static_cast<uint32_t>\<close> of a \<open>double\<close> drops the fraction. (Outside
  the range of \<open>uint32_t\<close> the cast is undefined in C++; the model wraps.)
\<close>

definition message_id :: "real \<Rightarrow> 32 word" where
  "message_id time_milliseconds = word_of_int (trunc time_milliseconds)"

text \<open>
  The two statements \<open>j["c"] = 0; j["c"] = calculate_checksum(encode(j));\<close>, which
  \<open>PlayList\<close> and \<open>sendTempo\<close> share.
\<close>

definition stamp_checksum :: "codec \<Rightarrow> json \<Rightarrow> json result" where
  "stamp_checksum cd j =
     bind (set_key j ''c'' (JInt 0)) (\<lambda>j.
       case calculate_checksum (encode cd j) of
         None \<Rightarrow> Undefined
       | Some c \<Rightarrow> set_key j ''c'' (JInt (uint c)))"

text \<open>
  \<open>TalkieDevice::sendTempo\<close>. \<open>MessageCode::set\<close> is 3. The \<open>catch\<close> takes every
  exception of the \<open>try\<close> block, writes one line to the error stream and returns false.
\<close>

definition tempo_message :: "codec \<Rightarrow> json \<Rightarrow> string \<Rightarrow> int \<Rightarrow> json result" where
  "tempo_message cd json_talkie_tempo n v =
     bind (set_key json_talkie_tempo ''n'' (JString n)) (\<lambda>j.
     bind (set_key j ''v'' (JInt v)) (\<lambda>j. stamp_checksum cd j))"

definition sendTempo ::
  "codec \<Rightarrow> TalkieDevice \<Rightarrow> json \<Rightarrow> int \<Rightarrow> int \<Rightarrow> TalkieSocket \<Rightarrow> (bool \<times> TalkieSocket) result" where
  "sendTempo cd device json_talkie_message bpm_n bpm_d sock =
     (let caught = (\<lambda>sock. Ok (False, sock\<lparr>cerr := cerr sock @ [''Fatal error while sending Tempo: '']\<rparr>)) in
      case bind (set_key json_talkie_message ''m'' (JInt 3)) (\<lambda>j.
           bind (set_key j ''i'' (JInt 0)) (\<lambda>j. tempo_message cd j ''bpm_n'' bpm_n)) of
        Throw e \<Rightarrow> caught sock
      | Blocked \<Rightarrow> Blocked
      | Undefined \<Rightarrow> Undefined
      | Ok json_talkie_tempo \<Rightarrow>
          (let sock = snd (sendMessage device (encode cd json_talkie_tempo) sock) in
           case tempo_message cd json_talkie_tempo ''bpm_d'' bpm_d of
             Throw e \<Rightarrow> caught sock
           | Blocked \<Rightarrow> Blocked
           | Undefined \<Rightarrow> Undefined
           | Ok json_talkie_tempo \<Rightarrow>
               Ok (True, snd (sendMessage device (encode cd json_talkie_tempo) sock))))"

text \<open>
  The branch of a timed message for a string \<open>t\<close>: the device of that name in the socket's
  \<open>devices_by_name\<close>, created (and sent the tempo, if one was read) when it is not there.
\<close>

definition device_by_name ::
  "codec \<Rightarrow> string \<Rightarrow> int \<Rightarrow> json \<Rightarrow> int \<Rightarrow> int \<Rightarrow> engine \<Rightarrow> (device_ref \<times> engine) result" where
  "device_by_name cd name port message bpm_n bpm_d eng =
     (let sock = talkie_socket eng in
      case devices_by_name sock name of
        Some device \<Rightarrow> Ok (ByName name, eng)
      | None \<Rightarrow>
          (let device = \<lparr>target_ip = [], target_port = port\<rparr>;
               sock = sock\<lparr>devices_by_name := (devices_by_name sock)(name \<mapsto> device)\<rparr> in
           if bpm_d \<noteq> 0 then
             bind (sendTempo cd device message bpm_n bpm_d sock) (\<lambda>(sent, sock).
               Ok (ByName name, eng\<lparr>talkie_socket := sock\<rparr>))
           else Ok (ByName name, eng\<lparr>talkie_socket := sock\<rparr>)))"

text \<open>
  The branch for a numeric \<open>t\<close>: the device of that channel in the \<open>devices_by_channel\<close>
  map of the file being read.
\<close>

definition device_by_channel ::
  "codec \<Rightarrow> nat \<Rightarrow> 8 word \<Rightarrow> int \<Rightarrow> json \<Rightarrow> int \<Rightarrow> int \<Rightarrow> engine \<Rightarrow> (device_ref \<times> engine) result" where
  "device_by_channel cd file channel port message bpm_n bpm_d eng =
     (case channel_maps eng file of
        None \<Rightarrow> Undefined
      | Some devices_by_channel \<Rightarrow>
          (case devices_by_channel channel of
             Some device \<Rightarrow> Ok (ByChannel file channel, eng)
           | None \<Rightarrow>
               (let device = \<lparr>target_ip = [], target_port = port\<rparr>;
                    eng = eng\<lparr>channel_maps :=
                            (channel_maps eng)(file \<mapsto> devices_by_channel(channel \<mapsto> device))\<rparr> in
                if bpm_d \<noteq> 0 then
                  bind (sendTempo cd device message bpm_n bpm_d (talkie_socket eng)) (\<lambda>(sent, sock).
                    Ok (ByChannel file channel, eng\<lparr>talkie_socket := sock\<rparr>))
                else Ok (ByChannel file channel, eng))))"

text \<open>
  The end of a timed message's branch: the pin is appended and the counters are moved
  (\<open>total_incorrect--\<close> cancels the \<open>total_incorrect++\<close> made before the device was
  looked up).
\<close>

definition push_pin :: "real \<Rightarrow> device_ref \<Rightarrow> string \<Rightarrow> engine \<Rightarrow> engine" where
  "push_pin time_milliseconds device message eng =
     eng\<lparr>talkieToProcess := talkieToProcess eng @ [new_pin time_milliseconds device message],
         play_reporting := (play_reporting eng)
           \<lparr>total_incorrect := total_incorrect (play_reporting eng) - 1,
            total_validated := total_validated (play_reporting eng) + 1\<rparr>\<rparr>"

text \<open>
  One pass of the loop over a file's content, for one \<open>jsonElement\<close>. The state is the
  tempo read so far in this file (\<open>bpm_n\<close>, \<open>bpm_d\<close>) and the engine. No statement of
  the loop body stands inside a \<open>try\<close> block of its own. The time of the pin is the
  sum, in doubles, of the entry's \<open>time_ms\<close> and \<open>static_cast<double>(delay_ms)\<close>.
\<close>

definition ingest_element ::
  "codec \<Rightarrow> int \<Rightarrow> nat \<Rightarrow> json \<Rightarrow> int \<times> int \<times> engine \<Rightarrow> (int \<times> int \<times> engine) result" where
  "ingest_element cd delay_ms file jsonElement state =
     (case state of (bpm_n, bpm_d, eng) \<Rightarrow>
      if json_contains jsonElement ''port'' \<and> json_contains jsonElement ''time_ms'' \<and>
         json_contains jsonElement ''message'' then
        bind (bind (at_key jsonElement ''time_ms'') get_double) (\<lambda>t.
        bind (bind (at_key jsonElement ''port'') get_int) (\<lambda>port.
        bind (at_key jsonElement ''message'') (\<lambda>message.
        (let time_milliseconds = to_double (t + to_double (real_of_int delay_ms)) in
         bind (set_key message ''i'' (JInt (uint (message_id time_milliseconds)))) (\<lambda>json_talkie_message.
         bind (stamp_checksum cd json_talkie_message) (\<lambda>json_talkie_message.
         (let eng = eng\<lparr>play_reporting := (play_reporting eng)
                      \<lparr>total_incorrect := total_incorrect (play_reporting eng) + 1\<rparr>\<rparr> in
          bind (at_key json_talkie_message ''t'') (\<lambda>t.
            if is_string t then
              bind (get_string t) (\<lambda>name.
              bind (device_by_name cd name port message bpm_n bpm_d eng) (\<lambda>(device, eng).
                Ok (bpm_n, bpm_d,
                    push_pin time_milliseconds device (encode cd json_talkie_message) eng)))
            else if is_number t then
              bind (get_uint8 t) (\<lambda>channel.
              bind (device_by_channel cd file channel port message bpm_n bpm_d eng) (\<lambda>(device, eng).
                Ok (bpm_n, bpm_d,
                    push_pin time_milliseconds device (encode cd json_talkie_message) eng)))
            else Ok (bpm_n, bpm_d, eng)))))))))
      else if bpm_d = 0 \<and> json_contains jsonElement ''tempo'' then
        bind (at_key jsonElement ''tempo'') (\<lambda>json_talkie_clock.
        bind (bind (at_key json_talkie_clock ''bpm_numerator'') get_int) (\<lambda>bpm_n.
        bind (bind (at_key json_talkie_clock ''bpm_denominator'') get_int) (\<lambda>bpm_d.
          Ok (bpm_n, bpm_d, eng))))
      else Ok state)"

fun ingest_content ::
  "codec \<Rightarrow> int \<Rightarrow> nat \<Rightarrow> json list \<Rightarrow> int \<times> int \<times> engine \<Rightarrow> (int \<times> int \<times> engine) result" where
  "ingest_content cd delay_ms file [] state = Ok state"
| "ingest_content cd delay_ms file (jsonElement # rest) state =
     bind (ingest_element cd delay_ms file jsonElement state) (ingest_content cd delay_ms file rest)"

text \<open>\<open>j.empty()\<close>: no element, no member, or null.\<close>

fun json_empty :: "json \<Rightarrow> bool" where
  "json_empty (JArray xs) = (xs = [])"
| "json_empty (JObject members) = (members = [])"
| "json_empty JNull = True"
| "json_empty _ = False"

fun is_array :: "json \<Rightarrow> bool" where
  "is_array (JArray xs) = True"
| "is_array _ = False"

text \<open>
  One pass of the loop over the files, for one \<open>jsonData\<close>; \<open>file\<close> counts the passes.
  The inner \<open>try\<close> has a handler for \<open>parse_error\<close> only. The map \<open>devices_by_channel\<close>
  is created where it is declared and destroyed when the pass ends.
\<close>

definition ingest_file :: "codec \<Rightarrow> int \<Rightarrow> bool \<Rightarrow> nat \<Rightarrow> json \<Rightarrow> engine \<Rightarrow> engine result" where
  "ingest_file cd delay_ms verbose file jsonData eng =
     (case bind (at_key jsonData ''filetype'') (\<lambda>jsonFileType.
           bind (at_key jsonData ''url'') (\<lambda>jsonFileUrl.
           bind (at_key jsonData ''content'') (\<lambda>jsonFileContent.
             Ok (jsonFileType, jsonFileUrl, jsonFileContent)))) of
        Throw parse_error \<Rightarrow> Ok (log_verbose verbose ''Unable to extract json data: '' eng)
      | Throw e \<Rightarrow> Throw e
      | Blocked \<Rightarrow> Blocked
      | Undefined \<Rightarrow> Undefined
      | Ok (jsonFileType, jsonFileUrl, jsonFileContent) \<Rightarrow>
          if jsonFileType \<noteq> JString FILE_TYPE \<or> jsonFileUrl \<noteq> JString FILE_URL then
            Ok (log_verbose verbose ''Wrong type of file!'' eng)
          else
            (let eng = (if \<not> is_array jsonFileContent \<or> json_empty jsonFileContent
                        then log_verbose verbose ''JSON file is empty.'' eng else eng);
                 eng = eng\<lparr>channel_maps := (channel_maps eng)(file \<mapsto> Map.empty)\<rparr> in
             bind (ingest_content cd delay_ms file (items jsonFileContent) (0, 0, eng))
               (\<lambda>(bpm_n, bpm_d, eng).
                 Ok (eng\<lparr>channel_maps := (channel_maps eng)(file := None)\<rparr>))))"

fun ingest_files :: "codec \<Rightarrow> int \<Rightarrow> bool \<Rightarrow> nat \<Rightarrow> json list \<Rightarrow> engine \<Rightarrow> engine result" where
  "ingest_files cd delay_ms verbose file [] eng = Ok eng"
| "ingest_files cd delay_ms verbose file (jsonData # rest) eng =
     bind (ingest_file cd delay_ms verbose file jsonData eng)
       (ingest_files cd delay_ms verbose (Suc file) rest)"

text \<open>
  The outer \<open>try\<close> block of \<open>PlayList\<close> with its one handler, for \<open>parse_error\<close>. Only
  \<open>json::parse\<close> throws that exception, before anything is changed, so the handler
  continues from the engine as it was.
\<close>

definition ingest :: "codec \<Rightarrow> string \<Rightarrow> int \<Rightarrow> bool \<Rightarrow> engine \<Rightarrow> engine result" where
  "ingest cd json_str delay_ms verbose eng =
     (case (case parse cd json_str of
              None \<Rightarrow> Throw parse_error
            | Some json_files_data \<Rightarrow> ingest_files cd delay_ms verbose 0 (items json_files_data) eng) of
        Throw parse_error \<Rightarrow> Ok (log_verbose verbose ''JSON parse error: '' eng)
      | Throw e \<Rightarrow> Throw e
      | Blocked \<Rightarrow> Blocked
      | Undefined \<Rightarrow> Undefined
      | Ok eng \<Rightarrow> Ok eng)"

section \<open>Sorting, playing and the statistics\<close>

text \<open>
  \<open>talkieToProcess.sort\<close> with the comparison \<open>a.getTime() < b.getTime()\<close>:
  \<open>std::list::sort\<close> is a stable sort, and a stable sort by one key has one result.
\<close>

definition sort_pins :: "TalkiePin list \<Rightarrow> TalkiePin list" where
  "sort_pins pins = sort_key time_ms pins"

text \<open>
  The macro \<open>(1000.0/((120/60)*24))\<close>: the divisor is computed in \<open>int\<close> and
  converted, and the quotient is the double nearest to \<open>1000/48\<close>.
\<close>

definition DRAG_DURATION_MS :: real where
  "DRAG_DURATION_MS = to_double (1000 / to_double (real_of_int (((120::int) div 60) * 24)))"

text \<open>
  \<open>std::round\<close>: to the nearest integer, halves away from zero. The result of
  \<open>std::round\<close> on a double is a double with no fraction; storing it in a variable of
  an integer type is undefined behaviour when the type cannot hold it (\<open>long long\<close> and
  \<open>size_t\<close> have 64 bits).
\<close>

definition c_round :: "real \<Rightarrow> int" where
  "c_round x = (if 0 \<le> x then \<lfloor>x + 1 / 2\<rfloor> else \<lceil>x - 1 / 2\<rceil>)"

definition fits_long_long :: "int \<Rightarrow> bool" where
  "fits_long_long n = (- (2 ^ 63) \<le> n \<and> n < 2 ^ 63)"

definition fits_size_t :: "int \<Rightarrow> bool" where
  "fits_size_t n = (0 \<le> n \<and> n < 2 ^ 64)"

text \<open>
  What the environment gives the playing loop for its \<open>k\<close>-th pin: the datagrams that
  arrive before each iteration of the sleep, and the clock's reading \<open>pluck_time\<close> in
  microseconds since \<open>playing_start\<close>. It also gives the library, the operating system's
  answers to \<open>initialize\<close> and the time measured for the processing of the data.
\<close>

record environment =
  lib :: codec
  os :: os_setup
  arrivals :: "nat \<Rightarrow> datagram list \<times> datagram list list"
  pluck_time_us :: "nat \<Rightarrow> int"
  processing_ms :: nat

text \<open>
  \<open>TalkiePin::pluckTooth\<close>. Reading a device that has been destroyed is undefined
  behaviour.
\<close>

definition pluckTooth :: "TalkiePin \<Rightarrow> engine \<Rightarrow> engine result" where
  "pluckTooth pin eng =
     (case talkie_device pin of
        None \<Rightarrow> Ok eng
      | Some device_pointer \<Rightarrow>
          (case deref eng device_pointer of
             None \<Rightarrow> Undefined
           | Some device \<Rightarrow>
               Ok (eng\<lparr>talkie_socket :=
                        snd (sendMessage device (talkie_message pin) (talkie_socket eng))\<rparr>)))"

text \<open>
  The last statement of the loop body: \<open>if (delay_time_ms > DRAG_DURATION_MS)
  play_reporting.total_drag += delay_time_ms - DRAG_DURATION_MS\<close>. The difference is
  rounded to a double, and so is the sum.
\<close>

definition process_drag :: "real \<Rightarrow> PlayReporting \<Rightarrow> PlayReporting" where
  "process_drag delay reporting =
     (if delay > DRAG_DURATION_MS
      then reporting\<lparr>total_drag :=
             to_double (total_drag reporting + to_double (delay - DRAG_DURATION_MS))\<rparr>
      else reporting)"

text \<open>
  One pass of the playing loop, for the pin at the front of \<open>talkieToProcess\<close> (\<open>rest\<close>
  is the list behind it). The time to sleep only sets how long the sleep loop runs, which
  the environment decides here. \<open>next_pin_time_us\<close> is a \<open>long long\<close> initialised
  from \<open>std::round((talkie_pin.getTime() + play_reporting.total_drag) * 1000)\<close>, a sum
  and a product of doubles. The delay is \<open>(pluck_time_us - next_pin_time_us) / 1000\<close>
  with \<open>pluck_time_us\<close> the clock's count cast to \<open>double\<close>: \<open>next_pin_time_us\<close> is
  converted to \<open>double\<close>, and the difference and the quotient are rounded.
\<close>

definition play_pin :: "environment \<Rightarrow> nat \<Rightarrow> TalkiePin \<Rightarrow> TalkiePin list \<Rightarrow> engine \<Rightarrow> engine result" where
  "play_pin env k talkie_pin rest eng =
     (let next_pin_time_us =
            c_round (to_double
              (to_double (time_ms talkie_pin + total_drag (play_reporting eng)) * 1000)) in
      if fits_long_long next_pin_time_us then
        bind (highResolutionSleep (lib env) (arrivals env k) (talkie_socket eng)) (\<lambda>sock.
        bind (pluckTooth talkie_pin (eng\<lparr>talkie_socket := sock\<rparr>)) (\<lambda>eng.
          (let delay = to_double (to_double
                         (to_double (real_of_int (pluck_time_us env k)) -
                          to_double (real_of_int next_pin_time_us)) / 1000);
               eng = eng\<lparr>talkieProcessed := talkieProcessed eng @ [talkie_pin\<lparr>delay_time_ms := delay\<rparr>],
                         talkieToProcess := rest\<rparr>
           in Ok (eng\<lparr>play_reporting := process_drag delay (play_reporting eng)\<rparr>))))
      else Undefined)"

text \<open>The loop \<open>while (talkieToProcess.size() > 0)\<close>, on the pins still to play.\<close>

fun play_loop :: "environment \<Rightarrow> nat \<Rightarrow> TalkiePin list \<Rightarrow> engine \<Rightarrow> engine result" where
  "play_loop env k [] eng = Ok eng"
| "play_loop env k (talkie_pin # rest) eng =
     bind (play_pin env k talkie_pin rest eng) (play_loop env (Suc k) rest)"

text \<open>
  The final statistics, computed when \<open>talkieProcessed\<close> is not empty. Each sum,
  difference and quotient is rounded to a double, \<open>talkieProcessed.size()\<close> is converted
  to \<open>double\<close> where it divides one, and \<open>std::pow(x, 2)\<close> and \<open>std::sqrt\<close> are taken
  to return the double nearest to the exact square and root.
\<close>

definition statistics :: "TalkiePin list \<Rightarrow> PlayReporting \<Rightarrow> PlayReporting" where
  "statistics processed reporting =
     (if length processed > 0 then
        (let reporting =
               fold (\<lambda>talkie_pin r.
                       r\<lparr>total_delay := to_double (total_delay r + delay_time_ms talkie_pin),
                         maximum_delay := max (maximum_delay r) (delay_time_ms talkie_pin)\<rparr>)
                 processed reporting;
             reporting =
               reporting\<lparr>minimum_delay := maximum_delay reporting,
                         average_delay :=
                           to_double (total_delay reporting / to_double (real (length processed)))\<rparr>;
             reporting =
               fold (\<lambda>talkie_pin r.
                       r\<lparr>minimum_delay := min (minimum_delay r) (delay_time_ms talkie_pin),
                         sd_delay := to_double (sd_delay r +
                           to_double ((to_double (delay_time_ms talkie_pin - average_delay r)) ^ 2))\<rparr>)
                 processed reporting;
             reporting = reporting\<lparr>sd_delay :=
                           to_double (sd_delay reporting / to_double (real (length processed)))\<rparr>
         in reporting\<lparr>sd_delay := to_double (sqrt (sd_delay reporting))\<rparr>)
      else reporting)"

section \<open>PlayList\<close>

text \<open>
  The engine as \<open>PlayList\<close> has it once the socket is constructed: an empty report,
  empty lists of pins and no \<open>devices_by_channel\<close> map.
\<close>

definition start_engine :: "TalkieSocket \<Rightarrow> engine" where
  "start_engine sock =
     \<lparr>talkie_socket = sock, channel_maps = Map.empty, play_reporting = new_reporting,
      talkieToProcess = [], talkieProcessed = []\<rparr>"

text \<open>
  \<open>PlayList\<close>, from the construction of the socket to its only \<open>return\<close> statement,
  \<open>return 0\<close>. The result is the value returned and the engine's final state. Before
  the playing loop, \<open>size_t duration_time_sec = std::round(last_pin->getTime() / 1000)\<close>
  is computed from the last pin of the sorted list, whether or not it is printed.
\<close>

definition PlayList :: "environment \<Rightarrow> string \<Rightarrow> int \<Rightarrow> bool \<Rightarrow> (int \<times> engine) result" where
  "PlayList env json_str delay_ms verbose =
     (let (initialized, sock) = initialize (os env) (new_socket []);
          eng = start_engine sock in
      if initialized then
        bind (ingest (lib env) json_str delay_ms verbose eng) (\<lambda>eng.
          if length (talkieToProcess eng) = 0 then
            Ok (0, eng\<lparr>play_reporting := (play_reporting eng)\<lparr>json_processing := processing_ms env\<rparr>\<rparr>)
          else
            (let eng = eng\<lparr>talkieToProcess := sort_pins (talkieToProcess eng)\<rparr>;
                 eng = eng\<lparr>play_reporting := (play_reporting eng)\<lparr>json_processing := processing_ms env\<rparr>\<rparr>;
                 duration_time_sec =
                   c_round (to_double (time_ms (last (talkieToProcess eng)) / 1000)) in
             if fits_size_t duration_time_sec then
               bind (play_loop env 0 (talkieToProcess eng) eng) (\<lambda>eng.
                 Ok (0, eng\<lparr>play_reporting := statistics (talkieProcessed eng) (play_reporting eng)\<rparr>))
             else Undefined))
      else Ok (0, eng))"

text \<open>
  The report's \<open>maximum_delay\<close> as the specification words it: the largest recorded delay.
\<close>

definition spec_maximum_delay :: "TalkiePin list \<Rightarrow> real" where
  "spec_maximum_delay processed = Max (set (map delay_time_ms processed))"

text \<open>
  Every device of every \<open>devices_by_channel\<close> map that exists has an empty \<open>target_ip\<close>.
\<close>

definition channels_unresolved :: "engine \<Rightarrow> bool" where
  "channels_unresolved eng =
     (\<forall>i devices_by_channel channel device.
        channel_maps eng i = Some devices_by_channel \<and>
        devices_by_channel channel = Some device \<longrightarrow> target_ip device = [])"

text \<open>
  What identifies a pin in the order of play: its time, its device and its message. The
  delay is written on the pin when it is played.
\<close>

definition pin_key :: "TalkiePin \<Rightarrow> real \<times> device_ref option \<times> string" where
  "pin_key pin = (time_ms pin, talkie_device pin, talkie_message pin)"

section \<open>Concrete inputs for the examples\<close>

text \<open>An operating system that grants the socket, and one where port 5005 is taken.\<close>

definition os_ok :: os_setup where
  "os_ok = \<lparr>socket_fd = 3, setsockopt_ok = True, bind_ok = True\<rparr>"

definition os_port_taken :: os_setup where
  "os_port_taken = \<lparr>socket_fd = 3, setsockopt_ok = True, bind_ok = False\<rparr>"

text \<open>The socket after a successful \<open>initialize\<close>, with the given datagrams waiting.\<close>

definition bound_socket :: "datagram list \<Rightarrow> TalkieSocket" where
  "bound_socket queue = snd (initialize os_ok (new_socket queue))"

text \<open>
  A peer's advertisement, \<open>{"c":28208,"f":"A"}\<close>, whose \<open>c\<close> is the checksum of the
  text, and the value a parser reads from it.
\<close>

definition quoted :: "string \<Rightarrow> string" where
  "quoted s = [CHR 0x22] @ s @ [CHR 0x22]"

definition advert_text :: string where
  "advert_text = ''{'' @ quoted ''c'' @ '':28208,'' @ quoted ''f'' @ '':'' @ quoted ''A'' @ ''}''"

definition advert_json :: json where
  "advert_json = JObject [(''c'', JInt 28208), (''f'', JString ''A'')]"

text \<open>
  A play list of one file with one entry, as text and as the value a parser reads from it:
  \<open>[{"filetype":"Json Midi Player","url":"https://github.com/ruiseixasm/JsonMidiPlayer",
  "content":[{"port":5005,"time_ms":T,"message":{"t":X}}]}]\<close>.
\<close>

definition play_list_text :: "string \<Rightarrow> string \<Rightarrow> string" where
  "play_list_text time t =
     ''[{'' @ quoted ''filetype'' @ '':'' @ quoted FILE_TYPE @ '','' @
     quoted ''url'' @ '':'' @ quoted FILE_URL @ '','' @
     quoted ''content'' @ '':[{'' @ quoted ''port'' @ '':5005,'' @
     quoted ''time_ms'' @ '':'' @ time @ '','' @
     quoted ''message'' @ '':{'' @ quoted ''t'' @ '':'' @ t @ ''}}]}]''"

definition entry_json :: "json \<Rightarrow> json \<Rightarrow> json" where
  "entry_json time t =
     JObject [(''port'', JInt 5005), (''time_ms'', time), (''message'', JObject [(''t'', t)])]"

definition file_json :: "json \<Rightarrow> json" where
  "file_json content =
     JObject [(''filetype'', JString FILE_TYPE), (''url'', JString FILE_URL),
              (''content'', content)]"

definition play_list_json :: "json \<Rightarrow> json \<Rightarrow> json" where
  "play_list_json time t = JArray [file_json (JArray [entry_json time t])]"

text \<open>
  A library for the examples: a parser that reads the one given text as the given value
  and rejects every other text, and an encoder that writes \<open>{}\<close>.
\<close>

definition reading :: "string \<Rightarrow> json \<Rightarrow> codec" where
  "reading text j =
     \<lparr>parse = (\<lambda>s. if s = text then Some j else None), encode = (\<lambda>j. ''{}'')\<rparr>"

text \<open>
  An environment for the examples: no datagram arrives, and every pin is plucked 120 ms
  after \<open>playing_start\<close>.
\<close>

definition quiet :: "codec \<Rightarrow> os_setup \<Rightarrow> environment" where
  "quiet cd setup =
     \<lparr>lib = cd, os = setup, arrivals = (\<lambda>k. ([], [])), pluck_time_us = (\<lambda>k. 120000),
      processing_ms = 0\<rparr>"

text \<open>
  An environment where no datagram arrives and the \<open>k\<close>-th pin is plucked \<open>120000 + k\<close>
  microseconds after \<open>playing_start\<close>, and one where every pin is plucked after 5 ms.
\<close>

definition slipping :: "codec \<Rightarrow> os_setup \<Rightarrow> environment" where
  "slipping cd setup =
     \<lparr>lib = cd, os = setup, arrivals = (\<lambda>k. ([], [])),
      pluck_time_us = (\<lambda>k. 120000 + int k), processing_ms = 0\<rparr>"

definition punctual :: "codec \<Rightarrow> os_setup \<Rightarrow> environment" where
  "punctual cd setup =
     \<lparr>lib = cd, os = setup, arrivals = (\<lambda>k. ([], [])), pluck_time_us = (\<lambda>k. 5000),
      processing_ms = 0\<rparr>"

text \<open>An engine that has read one pin at time 0 for the named device \<open>A\<close> on port 5005.\<close>

definition one_pin :: TalkiePin where
  "one_pin = new_pin 0 (ByName ''A'') ''{}''"

definition one_pin_engine :: engine where
  "one_pin_engine =
     \<lparr>talkie_socket = (bound_socket [])
        \<lparr>devices_by_name := [''A'' \<mapsto> \<lparr>target_ip = [], target_port = 5005\<rparr>]\<rparr>,
      channel_maps = Map.empty, play_reporting = new_reporting,
      talkieToProcess = [one_pin], talkieProcessed = []\<rparr>"

text \<open>
  A bound socket that knows the device \<open>A\<close>, not yet resolved, with the given datagrams
  waiting.
\<close>

definition socket_with_A :: "datagram list \<Rightarrow> TalkieSocket" where
  "socket_with_A queue =
     (bound_socket queue)\<lparr>devices_by_name := [''A'' \<mapsto> \<lparr>target_ip = [], target_port = 5005\<rparr>]\<rparr>"

text \<open>Two pins, at 5 ms and at 1 ms.\<close>

definition first_at_5 :: TalkiePin where
  "first_at_5 = new_pin 5 (ByName ''A'') ''first''"

definition at_1 :: TalkiePin where
  "at_1 = new_pin 1 (ByName ''B'') ''between''"

text \<open>
  That engine after its pin was plucked 120 ms late: the pin went out as a broadcast and
  the drag is the double nearest to \<open>120 - DRAG_DURATION_MS\<close>, which is
  \<open>6978233797618347 / 2^46\<close>.
\<close>

definition one_pin_played :: engine where
  "one_pin_played =
     one_pin_engine
       \<lparr>talkie_socket := (talkie_socket one_pin_engine)\<lparr>outbound := [(Broadcast, 5005, ''{}'')]\<rparr>,
        talkieProcessed := [one_pin\<lparr>delay_time_ms := 120\<rparr>],
        talkieToProcess := [],
        play_reporting := new_reporting\<lparr>total_drag := 6978233797618347 / 70368744177664\<rparr>\<rparr>"

text \<open>
  The play list with one pin at time 0 for channel 1: the library that reads it, the
  engine while its file is being read (the pin is in, the channel's device exists) and
  the engine when ingestion has returned (the file's \<open>devices_by_channel\<close> is gone).
\<close>

definition channel_lib :: codec where
  "channel_lib = reading (play_list_text ''0'' ''1'') (play_list_json (JInt 0) (JInt 1))"

definition channel_engine :: engine where
  "channel_engine =
     (start_engine (bound_socket []))
       \<lparr>talkieToProcess := [new_pin 0 (ByChannel 0 1) ''{}''],
        play_reporting := new_reporting\<lparr>total_validated := 1\<rparr>\<rparr>"

definition channel_engine_reading :: engine where
  "channel_engine_reading =
     channel_engine\<lparr>channel_maps := [0 \<mapsto> [1 \<mapsto> \<lparr>target_ip = [], target_port = 5005\<rparr>]]\<rparr>"

text \<open>The play list with one entry whose \<open>time_ms\<close> is the string \<open>"soon"\<close>.\<close>

definition soon_lib :: codec where
  "soon_lib =
     reading (play_list_text (quoted ''soon'') (quoted ''A''))
       (play_list_json (JString ''soon'') (JString ''A''))"

text \<open>
  An engine that has read two pins at time 0 for the device \<open>A\<close>, and that engine after
  the first pin was plucked at 120 ms and after the second was plucked at 120.001 ms, which
  is 20.834 ms after the 99.167 ms that the drag had moved it to.
\<close>

definition two_pins_engine :: engine where
  "two_pins_engine = one_pin_engine\<lparr>talkieToProcess := [one_pin, one_pin]\<rparr>"

definition first_pin_played :: engine where
  "first_pin_played =
     two_pins_engine
       \<lparr>talkie_socket := (talkie_socket two_pins_engine)\<lparr>outbound := [(Broadcast, 5005, ''{}'')]\<rparr>,
        talkieProcessed := [one_pin\<lparr>delay_time_ms := 120\<rparr>],
        talkieToProcess := [one_pin],
        play_reporting := new_reporting\<lparr>total_drag := 6978233797618347 / 70368744177664\<rparr>\<rparr>"

definition second_pin_played :: engine where
  "second_pin_played =
     two_pins_engine
       \<lparr>talkie_socket := (talkie_socket two_pins_engine)
          \<lparr>outbound := [(Broadcast, 5005, ''{}''), (Broadcast, 5005, ''{}'')]\<rparr>,
        talkieProcessed := [one_pin\<lparr>delay_time_ms := 120\<rparr>,
                            one_pin\<lparr>delay_time_ms := 5864249664789807 / 281474976710656\<rparr>],
        talkieToProcess := [],
        play_reporting := new_reporting\<lparr>total_drag := 3489140355057233 / 35184372088832\<rparr>\<rparr>"

text \<open>
  A play list of one file with three entries, for the devices \<open>A\<close> at 5 ms, \<open>B\<close> at
  1 ms and \<open>C\<close> at 5 ms in this order, and the library that reads it.
\<close>

definition entry_text :: "string \<Rightarrow> string \<Rightarrow> string" where
  "entry_text time t =
     ''{'' @ quoted ''port'' @ '':5005,'' @ quoted ''time_ms'' @ '':'' @ time @ '','' @
     quoted ''message'' @ '':{'' @ quoted ''t'' @ '':'' @ t @ ''}}''"

definition three_pins_text :: string where
  "three_pins_text =
     ''[{'' @ quoted ''filetype'' @ '':'' @ quoted FILE_TYPE @ '','' @
     quoted ''url'' @ '':'' @ quoted FILE_URL @ '','' @
     quoted ''content'' @ '':['' @ entry_text ''5'' (quoted ''A'') @ '','' @
     entry_text ''1'' (quoted ''B'') @ '','' @ entry_text ''5'' (quoted ''C'') @ '']}]''"

definition three_pins_json :: json where
  "three_pins_json =
     JArray [file_json (JArray [entry_json (JInt 5) (JString ''A''),
                                entry_json (JInt 1) (JString ''B''),
                                entry_json (JInt 5) (JString ''C'')])]"

definition three_pins_lib :: codec where
  "three_pins_lib = reading three_pins_text three_pins_json"

text \<open>The engine when ingestion of that play list has returned.\<close>

definition three_pins_engine :: engine where
  "three_pins_engine =
     (start_engine
        ((bound_socket [])
           \<lparr>devices_by_name :=
              [''A'' \<mapsto> \<lparr>target_ip = [], target_port = 5005\<rparr>,
               ''B'' \<mapsto> \<lparr>target_ip = [], target_port = 5005\<rparr>,
               ''C'' \<mapsto> \<lparr>target_ip = [], target_port = 5005\<rparr>]\<rparr>))
       \<lparr>talkieToProcess := [new_pin 5 (ByName ''A'') ''{}'', new_pin 1 (ByName ''B'') ''{}'',
                            new_pin 5 (ByName ''C'') ''{}''],
        play_reporting := new_reporting\<lparr>total_validated := 3\<rparr>\<rparr>"

section \<open>Properties of the rounding to doubles\<close>

lemma round_half_even_of_int [simp]: "round_half_even (of_int k) = k"
  by (simp add: round_half_even_def)

lemma round_half_even_numeral [simp]: "round_half_even (numeral w) = numeral w"
  using round_half_even_of_int [of "numeral w"] by simp

lemma round_half_even_floor: "\<lfloor>y\<rfloor> \<le> round_half_even y \<and> round_half_even y \<le> \<lfloor>y\<rfloor> + 1"
  by (simp add: round_half_even_def Let_def)

lemma round_half_even_ge: "of_int k \<le> y \<Longrightarrow> k \<le> round_half_even y"
proof -
  assume "of_int k \<le> y"
  then have "k \<le> \<lfloor>y\<rfloor>" by (simp add: le_floor_iff)
  with round_half_even_floor [of y] show ?thesis by simp
qed

lemma round_half_even_le:
  assumes "y \<le> of_int k" shows "round_half_even y \<le> k"
proof (cases "y = of_int k")
  case True
  then show ?thesis by simp
next
  case False
  with assms have "y < of_int k" by simp
  then have "\<lfloor>y\<rfloor> < k" by (simp add: floor_less_iff)
  with round_half_even_floor [of y] show ?thesis by simp
qed

lemma round_half_even_mono:
  assumes "a \<le> b" shows "round_half_even a \<le> round_half_even b"
proof (cases "\<lfloor>a\<rfloor> = \<lfloor>b\<rfloor>")
  case True
  with assms show ?thesis by (auto simp: round_half_even_def Let_def)
next
  case False
  with assms have "\<lfloor>a\<rfloor> < \<lfloor>b\<rfloor>" using floor_mono [of a b] by simp
  with round_half_even_floor [of a] round_half_even_floor [of b] show ?thesis by simp
qed

lemma to_double_expo:
  "x \<noteq> 0 \<Longrightarrow> to_double x = 2 powi (expo x - 52) * of_int (round_half_even (x / 2 powi (expo x - 52)))"
  by (simp add: to_double_def expo_def Let_def)

lemma powr2_powi: "(2::real) powr real_of_int k = 2 powi k"
  by (simp add: powr_real_of_int')

lemma expo_upper: assumes "0 < x" shows "x < 2 powi (expo x + 1)"
proof -
  have "x < 2 powr real_of_int (\<lfloor>log 2 x\<rfloor> + 1)"
    using assms floor_log_eq_powr_iff [of x 2 "\<lfloor>log 2 x\<rfloor>"] by simp
  also have "\<dots> = 2 powi (\<lfloor>log 2 x\<rfloor> + 1)" by (rule powr2_powi)
  also have "\<dots> \<le> 2 powi (expo x + 1)"
    using assms by (intro power_int_increasing) (auto simp: expo_def)
  finally show ?thesis .
qed

lemma expo_lower: assumes "0 < x" and "- 1022 < expo x" shows "2 powi expo x \<le> x"
proof -
  from assms have e: "expo x = \<lfloor>log 2 x\<rfloor>" by (auto simp: expo_def)
  have "2 powr real_of_int \<lfloor>log 2 x\<rfloor> \<le> x"
    using assms floor_log_eq_powr_iff [of x 2 "\<lfloor>log 2 x\<rfloor>"] by simp
  with e show ?thesis by (simp add: powr2_powi)
qed

lemma expo_eq:
  assumes "0 < z" and "- 1022 \<le> e" and "z < 2 powi (e + 1)" and "2 powi e \<le> z \<or> e = - 1022"
  shows "expo z = e"
proof (cases "2 powi e \<le> z")
  case True
  with assms have "\<lfloor>log 2 z\<rfloor> = e"
    using powr2_powi [of e] powr2_powi [of "e + 1"]
    by (simp only: floor_log_eq_powr_iff [of z 2 e])
  with assms show ?thesis by (simp add: expo_def)
next
  case False
  with assms have e: "e = - 1022" and lt: "z < 2 powi (- 1022)" by auto
  have "\<lfloor>log 2 z\<rfloor> < - 1022"
  proof (rule ccontr)
    assume "\<not> \<lfloor>log 2 z\<rfloor> < - 1022"
    then have "- 1022 \<le> \<lfloor>log 2 z\<rfloor>" by simp
    then have "(2::real) powi (- 1022) \<le> 2 powi \<lfloor>log 2 z\<rfloor>"
      by (intro power_int_increasing) auto
    also have "\<dots> \<le> z"
      using assms(1) floor_log_eq_powr_iff [of z 2 "\<lfloor>log 2 z\<rfloor>"] by (simp add: powr2_powi)
    finally show False using lt by simp
  qed
  with e assms(1) show ?thesis by (simp add: expo_def)
qed

lemma ulp_scale:
  "(2::real) powi (e - 52) * 4503599627370496 = 2 powi e"
  "(2::real) powi (e - 52) * 9007199254740992 = 2 powi (e + 1)"
proof -
  have "(2::real) powi (e - 52) * 2 powi 52 = 2 powi e"
    by (subst power_int_add [symmetric]) auto
  then show "(2::real) powi (e - 52) * 4503599627370496 = 2 powi e" by simp
  have "(2::real) powi (e - 52) * 2 powi 53 = 2 powi (e + 1)"
    by (subst power_int_add [symmetric]) (auto simp: add.commute)
  then show "(2::real) powi (e - 52) * 9007199254740992 = 2 powi (e + 1)" by simp
qed


text \<open>The significand of a positive number: between 0 and 2^53, at least 2^52 when normal.\<close>

lemma significand_bounds:
  assumes "0 < x"
  shows "0 \<le> round_half_even (x / 2 powi (expo x - 52))"
    and "round_half_even (x / 2 powi (expo x - 52)) \<le> 9007199254740992"
    and "- 1022 < expo x \<Longrightarrow> 4503599627370496 \<le> round_half_even (x / 2 powi (expo x - 52))"
proof -
  let ?u = "(2::real) powi (expo x - 52)"
  have u: "0 < ?u" by simp
  have "of_int 0 \<le> x / ?u" using assms u by simp
  then show "0 \<le> round_half_even (x / ?u)" by (rule round_half_even_ge)
  have "x \<le> ?u * 9007199254740992" using expo_upper [OF assms] by (simp add: ulp_scale)
  then have "x / ?u \<le> of_int (9007199254740992)" using u by (simp add: field_simps)
  then show "round_half_even (x / ?u) \<le> 9007199254740992" by (rule round_half_even_le)
  assume "- 1022 < expo x"
  from expo_lower [OF assms this] have "?u * 4503599627370496 \<le> x" by (simp add: ulp_scale)
  then have "of_int (4503599627370496) \<le> x / ?u" using u by (simp add: field_simps)
  then show "4503599627370496 \<le> round_half_even (x / ?u)" by (rule round_half_even_ge)
qed

lemma to_double_0 [simp]: "to_double 0 = 0"
  by (simp add: to_double_def)

lemma to_double_nonneg: "0 \<le> x \<Longrightarrow> 0 \<le> to_double x"
  using significand_bounds(1) [of x] by (cases "x = 0") (auto simp: to_double_expo)

lemma to_double_range:
  assumes "0 < x"
  shows "to_double x \<le> 2 powi (expo x + 1)"
    and "- 1022 < expo x \<Longrightarrow> 2 powi expo x \<le> to_double x"
proof -
  let ?u = "(2::real) powi (expo x - 52)"
  let ?k = "round_half_even (x / ?u)"
  have t: "to_double x = ?u * of_int ?k" using assms by (simp add: to_double_expo)
  have "of_int ?k \<le> (2::real) ^ 53"
    using significand_bounds(2) [OF assms] by simp
  then have "?u * of_int ?k \<le> ?u * 9007199254740992" by (intro mult_left_mono) auto
  with t show "to_double x \<le> 2 powi (expo x + 1)" by (simp add: ulp_scale)
  assume "- 1022 < expo x"
  from significand_bounds(3) [OF assms this] have "(2::real) ^ 52 \<le> of_int ?k"
    by simp
  then have "?u * 4503599627370496 \<le> ?u * of_int ?k" by (intro mult_left_mono) auto
  with t show "2 powi expo x \<le> to_double x" by (simp add: ulp_scale)
qed

lemma expo_mono: "0 < x \<Longrightarrow> x \<le> y \<Longrightarrow> expo x \<le> expo y"
  unfolding expo_def by (intro max.mono floor_mono) (auto simp: log_le_cancel_iff)

lemma to_double_mono:
  assumes "0 \<le> x" and "x \<le> y"
  shows "to_double x \<le> to_double y"
proof (cases "x = 0")
  case True
  with assms to_double_nonneg [of y] show ?thesis by simp
next
  case False
  with assms have x: "0 < x" and y: "0 < y" by auto
  show ?thesis
  proof (cases "expo x = expo y")
    case True
    let ?u = "(2::real) powi (expo y - 52)"
    have "x / ?u \<le> y / ?u" using assms by (simp add: divide_right_mono)
    then have "round_half_even (x / ?u) \<le> round_half_even (y / ?u)"
      by (rule round_half_even_mono)
    then have "?u * of_int (round_half_even (x / ?u)) \<le> ?u * of_int (round_half_even (y / ?u))"
      by (intro mult_left_mono) auto
    with True x y show ?thesis by (simp add: to_double_expo)
  next
    case False
    with expo_mono [OF x assms(2)] have lt: "expo x < expo y" by simp
    moreover have "- 1022 \<le> expo x" by (simp add: expo_def)
    ultimately have n: "- 1022 < expo y" by simp
    have "to_double x \<le> 2 powi (expo x + 1)" by (rule to_double_range(1) [OF x])
    also have "\<dots> \<le> 2 powi expo y" using lt by (intro power_int_increasing) auto
    also have "\<dots> \<le> to_double y" by (rule to_double_range(2) [OF y n])
    finally show ?thesis .
  qed
qed

lemma to_double_idem:
  assumes "0 \<le> x"
  shows "to_double (to_double x) = to_double x"
proof (cases "x = 0")
  case True
  then show ?thesis by simp
next
  case False
  with assms have x: "0 < x" by simp
  let ?e = "expo x"
  let ?u = "(2::real) powi (?e - 52)"
  let ?k = "round_half_even (x / ?u)"
  have t: "to_double x = ?u * of_int ?k" using x by (simp add: to_double_expo)
  have u: "0 < ?u" by simp
  have e: "- 1022 \<le> ?e" by (simp add: expo_def)
  note k = significand_bounds [OF x]
  show ?thesis
  proof (cases "?k = 0")
    case True
    with t show ?thesis by simp
  next
    case False
    with k(1) have kpos: "0 < ?k" by simp
    then have zpos: "0 < to_double x" using t u by simp
    show ?thesis
    proof (cases "?k = 9007199254740992")
      case True
      with t have z: "to_double x = 2 powi (?e + 1)" by (simp add: ulp_scale)
      have "expo (to_double x) = ?e + 1"
        using e by (intro expo_eq) (auto simp: z intro!: power_int_strict_increasing)
      moreover have "to_double x / 2 powi (?e + 1 - 52) = of_int (4503599627370496)"
        using ulp_scale(1) [of "?e + 1"] by (simp add: z field_simps)
      ultimately have "to_double (to_double x) = 2 powi (?e + 1 - 52) * of_int (4503599627370496)"
        using zpos by (simp add: to_double_expo)
      also have "\<dots> = 2 powi (?e + 1)" using ulp_scale(1) [of "?e + 1"] by simp
      finally show ?thesis using z by simp
    next
      case False
      with k(2) have klt: "?k < 9007199254740992" by simp
      then have "of_int ?k < (2::real) ^ 53"
        by simp
      then have "?u * of_int ?k < ?u * 9007199254740992" using u by (intro mult_strict_left_mono) auto
      then have up: "to_double x < 2 powi (?e + 1)" using t by (simp add: ulp_scale)
      have lo: "2 powi ?e \<le> to_double x \<or> ?e = - 1022"
        using to_double_range(2) [OF x] e by auto
      have "expo (to_double x) = ?e"
        using zpos e up lo by (rule expo_eq)
      moreover have "to_double x / ?u = of_int ?k" using t u by simp
      ultimately have "to_double (to_double x) = ?u * of_int ?k"
        using zpos by (simp add: to_double_expo)
      with t show ?thesis by simp
    qed
  qed
qed


lemma to_double_eval:
  assumes "0 < x" and "2 powi e \<le> x" and "x < 2 powi (e + 1)" and "- 1022 \<le> e"
  shows "to_double x = 2 powi (e - 52) * of_int (round_half_even (x / 2 powi (e - 52)))"
proof -
  have "expo x = e" using assms by (intro expo_eq) auto
  with assms(1) show ?thesis by (simp add: to_double_expo)
qed

lemma to_double_of_int:
  assumes "0 \<le> n" and "n < 9007199254740992"
  shows "to_double (of_int n) = of_int n"
proof (cases "n = 0")
  case True
  then show ?thesis by simp
next
  case False
  with assms have n: "0 < n" by simp
  let ?x = "real_of_int n"
  let ?e = "expo ?x"
  have x: "0 < ?x" using n by simp
  have "(2::real) powi 0 \<le> ?x" using n by simp
  have lo: "0 \<le> ?e"
  proof -
    have "0 \<le> log 2 ?x" using n by (simp add: zero_le_log_cancel_iff)
    moreover have "\<bar>?x\<bar> = ?x" using n by simp
    ultimately have "0 \<le> \<lfloor>log 2 \<bar>?x\<bar>\<rfloor>" by simp
    then show ?thesis unfolding expo_def by linarith
  qed
  have hi: "?e \<le> 52"
  proof (rule ccontr)
    assume "\<not> ?e \<le> 52"
    then have "53 \<le> ?e" by simp
    then have "(2::real) powi 53 \<le> 2 powi ?e" by (intro power_int_increasing) auto
    also have "\<dots> \<le> ?x" using lo by (intro expo_lower [OF x]) simp
    finally show False using assms(2) by simp
  qed
  define d where "d = nat (52 - ?e)"
  have u: "(2::real) powi (?e - 52) = 1 / 2 ^ d"
    using hi by (simp add: d_def power_int_def field_simps)
  have "?x / 2 powi (?e - 52) = of_int (n * 2 ^ d)" by (simp add: u)
  then have "round_half_even (?x / 2 powi (?e - 52)) = n * 2 ^ d"
    by (simp only: round_half_even_of_int)
  with x show ?thesis by (simp add: to_double_expo u)
qed

lemma to_double_numeral [simp]:
  "(numeral w :: int) < 9007199254740992 \<Longrightarrow> to_double (numeral w) = numeral w"
  using to_double_of_int [of "numeral w"] by simp

lemma to_double_1 [simp]: "to_double 1 = 1"
  using to_double_of_int [of 1] by simp

lemma is_double_to_double: "0 \<le> x \<Longrightarrow> is_double (to_double x)"
  by (simp add: is_double_def to_double_idem)

lemma is_double_0: "is_double 0"
  by (simp add: is_double_def)

section \<open>Properties of the wire codec\<close>

lemma in_run_iff:
  "in_run bytes i \<longleftrightarrow>
     (\<exists>j<i. c_colon_before bytes j \<and> (\<forall>k. j < k \<and> k < i \<longrightarrow> \<not> not_digit (bytes ! k)))"
  by (auto simp: in_run_def Suc_le_eq)

lemma colon_not_digit: "not_digit CHR '':''"
  by (simp add: not_digit_def)

lemma c_colon_not_adjacent: "c_colon_before bytes j \<Longrightarrow> \<not> c_colon_before bytes (Suc j)"
  by (auto simp: c_colon_before_def Suc_diff_le numeral_eq_Suc)

text \<open>
  Inside a masked run the guard of the first branch cannot hold, so its \<open>!at_c0\<close> conjunct
  never decides anything.
\<close>

lemma in_run_not_c_colon:
  assumes "in_run bytes n"
  shows "\<not> c_colon_before bytes n"
proof
  assume t: "c_colon_before bytes n"
  from assms obtain j where j: "j < n" "c_colon_before bytes j"
    and d: "\<forall>k. j < k \<and> k < n \<longrightarrow> \<not> not_digit (bytes ! k)"
    by (auto simp: in_run_iff)
  from t have n: "n > 3" "bytes ! (n - 1) = CHR '':''"
    by (auto simp: c_colon_before_def)
  show False
  proof (cases "n = Suc j")
    case True
    with t j c_colon_not_adjacent show False by blast
  next
    case False
    with j n have "j < n - 1 \<and> n - 1 < n" by auto
    with d have "\<not> not_digit (bytes ! (n - 1))" by blast
    with n colon_not_digit show False by simp
  qed
qed

lemma in_run_Suc:
  "in_run bytes (Suc n) \<longleftrightarrow>
     c_colon_before bytes n \<or> (in_run bytes n \<and> \<not> not_digit (bytes ! n))"
proof
  assume "in_run bytes (Suc n)"
  then obtain j where j: "j < Suc n" "c_colon_before bytes j"
    and d: "\<forall>k. j < k \<and> k < Suc n \<longrightarrow> \<not> not_digit (bytes ! k)"
    by (auto simp: in_run_iff)
  show "c_colon_before bytes n \<or> (in_run bytes n \<and> \<not> not_digit (bytes ! n))"
  proof (cases "j = n")
    case True
    with j show ?thesis by simp
  next
    case False
    with j have "j < n" by simp
    with j d have "in_run bytes n" "\<not> not_digit (bytes ! n)"
      by (auto simp: in_run_iff)
    then show ?thesis by simp
  qed
next
  assume "c_colon_before bytes n \<or> (in_run bytes n \<and> \<not> not_digit (bytes ! n))"
  then show "in_run bytes (Suc n)"
  proof
    assume "c_colon_before bytes n"
    then show ?thesis
      unfolding in_run_iff by (intro exI [of _ n]) auto
  next
    assume b: "in_run bytes n \<and> \<not> not_digit (bytes ! n)"
    then obtain j where j: "j < n" "c_colon_before bytes j"
      and d: "\<forall>k. j < k \<and> k < n \<longrightarrow> \<not> not_digit (bytes ! k)"
      by (auto simp: in_run_iff)
    show ?thesis
      unfolding in_run_iff
    proof (intro exI [of _ j] conjI allI impI)
      show "j < Suc n" using j by simp
      show "c_colon_before bytes j" by fact
      fix k
      assume "j < k \<and> k < Suc n"
      then show "\<not> not_digit (bytes ! k)"
        using d b by (cases "k = n") auto
    qed
  qed
qed

lemma in_run_0: "\<not> in_run bytes 0"
  by (simp add: in_run_def)

text \<open>The loop invariant: the flag is \<open>in_run\<close>, the output is what \<open>out_at\<close> says so far.\<close>

lemma scan_invariant:
  "fold (scan_step bytes) [0..<n] (False, []) =
     (in_run bytes n, concat (map (out_at bytes) [0..<n]))"
proof (induction n)
  case 0
  then show ?case by (simp add: in_run_0)
next
  case (Suc n)
  show ?case
  proof (cases "in_run bytes n")
    case True
    then have "\<not> c_colon_before bytes n" by (rule in_run_not_c_colon)
    with True Suc show ?thesis by (simp add: in_run_Suc out_at_def)
  next
    case False
    with Suc show ?thesis by (simp add: in_run_Suc out_at_def)
  qed
qed

lemma preprocess_length: "length (preprocess bytes) \<le> length bytes"
proof -
  have "length (concat (map (out_at bytes) [0..<n])) \<le> n" for n
    by (induction n) (auto simp: out_at_def)
  then show ?thesis by (simp add: preprocess_def scan_invariant)
qed

lemma xor_loop_chunks:
  "xor_loop (pre @ d) (length pre) acc = fold (XOR) (be_chunks d) acc"
proof (induction d arbitrary: pre acc rule: be_chunks.induct)
  case 1
  then show ?case by (simp add: xor_loop.simps)
next
  case (2 h)
  then show ?case
    by (simp add: xor_loop.simps [of "pre @ [h]" "length pre"]
        xor_loop.simps [of "pre @ [h]" "Suc (Suc (length pre))"] xor.commute)
next
  case (3 h l rest)
  have "xor_loop (pre @ h # l # rest) (length pre) acc =
        xor_loop ((pre @ [h, l]) @ rest) (length (pre @ [h, l]))
          (acc XOR (push_bit 8 (of_char h) OR of_char l))"
    by (subst xor_loop.simps) (simp add: nth_append)
  also have "\<dots> = fold (XOR) (be_chunks rest) (acc XOR (push_bit 8 (of_char h) OR of_char l))"
    by (rule 3)
  finally show ?case by (simp add: xor.commute)
qed

lemma mask16: "(w :: 16 word) AND 0xFFFF = w"
proof -
  have "(0xFFFF :: 16 word) = - 1" by simp
  then show ?thesis by (simp only: and.right_neutral bit.conj_one_right)
qed

text \<open>
  Claim C3, as the specification words it, fails in two ways. The byte after \<open>"c":\<close> is
  replaced by \<open>0\<close> whether or not it is a digit: for \<open>"c":x\<close> the loop derives \<open>"c":0\<close>
  where the specification's rule leaves the text alone. And the flag is cleared at the end
  of a run, so a second \<open>"c":\<close> is masked too: for \<open>"c":1,"c":2\<close> the loop derives
  \<open>"c":0,"c":0\<close> where the specification's rule gives \<open>"c":0,"c":2\<close>.
\<close>

theorem masking_rule_counterexample:
  "preprocess (c_key @ ''x'') = c_key @ ''0'' \<and>
   spec_mask (c_key @ ''x'') = c_key @ ''x'' \<and>
   preprocess (c_key @ ''1,'' @ c_key @ ''2'') = c_key @ ''0,'' @ c_key @ ''0'' \<and>
   spec_mask (c_key @ ''1,'' @ c_key @ ''2'') = c_key @ ''0,'' @ c_key @ ''2''"
  by (simp add: c_key_def preprocess_def c_colon_before_def not_digit_def upt_rec)

text \<open>
  Claim C3, amended: for every input byte string the derived sequence is the
  concatenation, over the positions of the input in order, of: a single \<open>0\<close> where the
  four bytes before the position are \<open>"c":\<close> (whatever byte stands there); nothing where
  the byte is an ASCII digit reached from such a position through digits only; the byte
  itself everywhere else. Every occurrence of \<open>"c":\<close> followed by a byte is masked.
\<close>

theorem preprocess_positionwise:
  "preprocess bytes = concat (map (out_at bytes) [0..<length bytes])"
  by (simp add: preprocess_def scan_invariant)

theorem preprocess_positionwise_witness:
  "preprocess (c_key @ ''12,'' @ c_key @ ''x7'') = c_key @ ''0,'' @ c_key @ ''0''"
  using preprocess_positionwise [of "c_key @ ''12,'' @ c_key @ ''x7''"]
  by (simp add: c_key_def out_at_def in_run_def c_colon_before_def not_digit_def upt_rec)

text \<open>
  Claim C4: for every derived byte sequence, the value returned is the XOR, from 0, of the
  big-endian 16-bit chunks of the sequence (high byte from the even index, low byte from
  the odd index, a last unpaired byte as a high byte over a zero low byte), in 16 bits.
\<close>

theorem fold_checksum_is_xor_of_chunks:
  "fold_checksum data_bytes = spec_checksum data_bytes"
  using xor_loop_chunks [of "[]" data_bytes 0]
  by (simp add: fold_checksum_def spec_checksum_def mask16
      take_bit_length_eq [where 'a=16, simplified])

section \<open>Properties of playing and the statistics\<close>

subsection \<open>Drag\<close>

lemma DRAG_DURATION_MS_value: "DRAG_DURATION_MS = 5864062014805333 / 281474976710656"
proof -
  have "to_double (125 / 6) =
      2 powi (4 - 52) * of_int (round_half_even ((125 / 6) / 2 powi (4 - 52)))"
    by (rule to_double_eval) simp_all
  also have "\<dots> = 5864062014805333 / 281474976710656"
    by (simp add: round_half_even_def)
  finally show ?thesis by (simp add: DRAG_DURATION_MS_def)
qed

lemma pluckTooth_frame:
  "pluckTooth pin eng = Ok eng' \<Longrightarrow>
     play_reporting eng' = play_reporting eng \<and> talkieProcessed eng' = talkieProcessed eng \<and>
     channel_maps eng' = channel_maps eng"
  by (auto simp: pluckTooth_def split: option.splits)

lemma play_pin_Ok:
  assumes "play_pin env k pin rest eng = Ok eng'"
  shows "\<exists>sock eng1 delay.
           highResolutionSleep (lib env) (arrivals env k) (talkie_socket eng) = Ok sock \<and>
           pluckTooth pin (eng\<lparr>talkie_socket := sock\<rparr>) = Ok eng1 \<and>
           eng' = eng1\<lparr>talkieProcessed := talkieProcessed eng1 @ [pin\<lparr>delay_time_ms := delay\<rparr>],
                      talkieToProcess := rest,
                      play_reporting := process_drag delay (play_reporting eng1)\<rparr>"
proof -
  from assms obtain sock where
    s: "highResolutionSleep (lib env) (arrivals env k) (talkie_socket eng) = Ok sock"
    by (cases "highResolutionSleep (lib env) (arrivals env k) (talkie_socket eng)")
       (auto simp: play_pin_def Let_def split: if_splits)
  with assms obtain eng1 where
    p: "pluckTooth pin (eng\<lparr>talkie_socket := sock\<rparr>) = Ok eng1"
    by (cases "pluckTooth pin (eng\<lparr>talkie_socket := sock\<rparr>)")
       (auto simp: play_pin_def Let_def split: if_splits)
  from assms s p show ?thesis
    by (auto simp: play_pin_def Let_def split: if_splits)
qed

lemma play_pin_result:
  assumes "play_pin env k pin rest eng = Ok eng'"
  shows "\<exists>delay. talkieProcessed eng' = talkieProcessed eng @ [pin\<lparr>delay_time_ms := delay\<rparr>] \<and>
           play_reporting eng' = process_drag delay (play_reporting eng) \<and>
           talkieToProcess eng' = rest"
proof -
  from play_pin_Ok [OF assms] obtain sock eng1 delay where
    p: "pluckTooth pin (eng\<lparr>talkie_socket := sock\<rparr>) = Ok eng1"
    and e: "eng' = eng1\<lparr>talkieProcessed := talkieProcessed eng1 @ [pin\<lparr>delay_time_ms := delay\<rparr>],
                      talkieToProcess := rest,
                      play_reporting := process_drag delay (play_reporting eng1)\<rparr>"
    by blast
  from pluckTooth_frame [OF p] e have
    "talkieProcessed eng' = talkieProcessed eng @ [pin\<lparr>delay_time_ms := delay\<rparr>] \<and>
     play_reporting eng' = process_drag delay (play_reporting eng) \<and>
     talkieToProcess eng' = rest"
    by simp
  then show ?thesis by blast
qed

lemma process_drag_mono:
  assumes "0 \<le> total_drag r" and "is_double (total_drag r)"
  shows "total_drag r \<le> total_drag (process_drag delay r) \<and>
         is_double (total_drag (process_drag delay r))"
proof (cases "delay > DRAG_DURATION_MS")
  case True
  let ?sum = "total_drag r + to_double (delay - DRAG_DURATION_MS)"
  from True have "0 \<le> to_double (delay - DRAG_DURATION_MS)"
    by (intro to_double_nonneg) simp
  then have s: "total_drag r \<le> ?sum" by simp
  with assms(1) have "to_double (total_drag r) \<le> to_double ?sum"
    by (intro to_double_mono)
  moreover have "is_double (to_double ?sum)"
    using s assms(1) by (intro is_double_to_double) simp
  ultimately show ?thesis
    using True assms(2) by (simp add: process_drag_def is_double_def)
next
  case False
  with assms show ?thesis by (simp add: process_drag_def)
qed

lemma play_pin_mono:
  assumes "play_pin env k pin rest eng = Ok eng'"
    and "0 \<le> total_drag (play_reporting eng)" and "is_double (total_drag (play_reporting eng))"
  shows "total_drag (play_reporting eng) \<le> total_drag (play_reporting eng') \<and>
         is_double (total_drag (play_reporting eng'))"
  using play_pin_result [OF assms(1)] process_drag_mono [OF assms(2,3)] by auto

lemma play_loop_mono:
  "play_loop env k pins eng = Ok eng' \<Longrightarrow>
   0 \<le> total_drag (play_reporting eng) \<Longrightarrow> is_double (total_drag (play_reporting eng)) \<Longrightarrow>
     total_drag (play_reporting eng) \<le> total_drag (play_reporting eng') \<and>
     is_double (total_drag (play_reporting eng'))"
proof (induction pins arbitrary: k eng)
  case Nil
  then show ?case by simp
next
  case (Cons pin rest)
  from Cons.prems(1) obtain eng1 where
    a: "play_pin env k pin rest eng = Ok eng1" and b: "play_loop env (Suc k) rest eng1 = Ok eng'"
    by (cases "play_pin env k pin rest eng") auto
  from play_pin_mono [OF a Cons.prems(2,3)] have
    m: "total_drag (play_reporting eng) \<le> total_drag (play_reporting eng1)"
    and d: "is_double (total_drag (play_reporting eng1))" by simp_all
  from m Cons.prems(2) have "0 \<le> total_drag (play_reporting eng1)" by simp
  from Cons.IH [OF b this d] m show ?case by simp
qed

text \<open>
  The example: one pin due at 0 ms is plucked at 120 ms; it goes out as a broadcast and
  the drag becomes the double nearest to \<open>120 - DRAG_DURATION_MS\<close>.
\<close>

lemma first_drag:
  "to_double (27912935190473387 / 281474976710656) = 6978233797618347 / 70368744177664"
proof -
  have "to_double (27912935190473387 / 281474976710656) =
      2 powi (6 - 52) *
        of_int (round_half_even ((27912935190473387 / 281474976710656) / 2 powi (6 - 52)))"
    by (rule to_double_eval) simp_all
  also have "\<dots> = 6978233797618347 / 70368744177664"
    by (simp add: round_half_even_def)
  finally show ?thesis .
qed

lemma first_drag_double:
  "to_double (6978233797618347 / 70368744177664) = 6978233797618347 / 70368744177664"
  using to_double_idem [of "27912935190473387 / 281474976710656"] by (simp add: first_drag)

lemma fits_long_long_0: "fits_long_long 0"
  by (simp add: fits_long_long_def)

lemma play_one_pin_in:
  assumes "lib env = cd" and "arrivals env k = ([], [])" and "pluck_time_us env k = 120000"
  shows "play_pin env k one_pin rest (one_pin_engine\<lparr>talkieToProcess := pins\<rparr>) =
     Ok (one_pin_played\<lparr>talkieToProcess := rest\<rparr>)"
  using assms
  by (simp add: play_pin_def one_pin_def one_pin_engine_def new_pin_def
      highResolutionSleep_def updateAddresses_def hasMessages_def bound_socket_def initialize_def
      os_ok_def new_socket_def pluckTooth_def sendMessage_def sendBroadcast_def c_round_def
      fits_long_long_0 new_reporting_def process_drag_def DRAG_DURATION_MS_value first_drag
      first_drag_double one_pin_played_def)

lemma play_one_pin:
  "play_pin (quiet cd os_ok) k one_pin [] one_pin_engine = Ok one_pin_played"
  using play_one_pin_in [of "quiet cd os_ok" cd k "[]" "[one_pin]"]
  by (simp add: quiet_def one_pin_engine_def one_pin_played_def)

lemma play_loop_one_pin:
  "play_loop (quiet cd os_ok) k [one_pin] one_pin_engine = Ok one_pin_played"
  by (simp add: play_one_pin)

text \<open>
  The example goes on: a second pin due at 0 ms, moved to 99.167 ms by the drag, is plucked
  at 120.001 ms, which is 20.834 ms late.
\<close>

lemma second_next_time:
  "to_double (872279224702293375 / 8796093022208) = 6814681442986667 / 68719476736"
proof -
  have "to_double (872279224702293375 / 8796093022208) =
      2 powi (16 - 52) *
        of_int (round_half_even ((872279224702293375 / 8796093022208) / 2 powi (16 - 52)))"
    by (rule to_double_eval) simp_all
  also have "\<dots> = 6814681442986667 / 68719476736"
    by (simp add: round_half_even_def)
  finally show ?thesis .
qed

lemma second_delay:
  "to_double (10417 / 500) = 5864249664789807 / 281474976710656"
proof -
  have "to_double (10417 / 500) =
      2 powi (4 - 52) * of_int (round_half_even ((10417 / 500) / 2 powi (4 - 52)))"
    by (rule to_double_eval) simp_all
  also have "\<dots> = 5864249664789807 / 281474976710656"
    by (simp add: round_half_even_def)
  finally show ?thesis .
qed

lemma second_excess:
  "to_double (93824992237 / 140737488355328) = 93824992237 / 140737488355328"
proof -
  have "to_double (93824992237 / 140737488355328) =
      2 powi (- 11 - 52) *
        of_int (round_half_even ((93824992237 / 140737488355328) / 2 powi (- 11 - 52)))"
    by (rule to_double_eval) simp_all
  also have "\<dots> = 93824992237 / 140737488355328"
    by (simp add: round_half_even_def)
  finally show ?thesis .
qed

lemma second_drag:
  "to_double (13956561420228931 / 140737488355328) =
     3489140355057233 / 35184372088832"
proof -
  have "to_double (13956561420228931 / 140737488355328) =
      2 powi (6 - 52) *
        of_int (round_half_even ((13956561420228931 / 140737488355328) / 2 powi (6 - 52)))"
    by (rule to_double_eval) simp_all
  also have "\<dots> = 3489140355057233 / 35184372088832"
    by (simp add: round_half_even_def)
  finally show ?thesis .
qed

lemma play_second_pin:
  "play_pin (slipping cd os_ok) (Suc 0) one_pin [] first_pin_played = Ok second_pin_played"
  by (simp add: play_pin_def slipping_def one_pin_def one_pin_engine_def new_pin_def
      two_pins_engine_def first_pin_played_def second_pin_played_def
      highResolutionSleep_def updateAddresses_def hasMessages_def bound_socket_def initialize_def
      os_ok_def new_socket_def pluckTooth_def sendMessage_def sendBroadcast_def c_round_def
      fits_long_long_def new_reporting_def process_drag_def DRAG_DURATION_MS_value first_drag
      first_drag_double second_next_time second_delay second_excess second_drag)

subsection \<open>The largest delay\<close>

lemma fold_maximum_delay:
  "maximum_delay (fold (\<lambda>talkie_pin r.
       r\<lparr>total_delay := to_double (total_delay r + delay_time_ms talkie_pin),
         maximum_delay := max (maximum_delay r) (delay_time_ms talkie_pin)\<rparr>) processed r)
   = fold max (map delay_time_ms processed) (maximum_delay r)"
  by (induction processed arbitrary: r) (simp_all add: max.commute)

lemma second_loop_keeps_maximum:
  "maximum_delay (fold (\<lambda>talkie_pin r.
       r\<lparr>minimum_delay := min (minimum_delay r) (delay_time_ms talkie_pin),
         sd_delay := to_double (sd_delay r +
           to_double ((to_double (delay_time_ms talkie_pin - average_delay r)) ^ 2))\<rparr>) processed r)
   = maximum_delay r"
  by (induction processed arbitrary: r) simp_all

lemma fold_max_Max: "xs \<noteq> [] \<Longrightarrow> fold max xs (m::real) = max m (Max (set xs))"
proof (induction xs arbitrary: m)
  case Nil
  then show ?case by simp
next
  case (Cons x xs)
  show ?case
  proof (cases "xs = []")
    case True
    then show ?thesis by (simp add: max.commute)
  next
    case False
    with Cons.IH [of "max x m"] show ?thesis
      by (simp add: max.assoc max.commute max.left_commute)
  qed
qed

lemma statistics_maximum:
  assumes "processed \<noteq> []"
  shows "maximum_delay (statistics processed r) =
           max (maximum_delay r) (spec_maximum_delay processed)"
  using assms
  by (simp add: statistics_def Let_def second_loop_keeps_maximum fold_maximum_delay fold_max_Max
      spec_maximum_delay_def)

text \<open>
  Claim C9, as stated, fails: for one processed pin whose recorded delay is \<open>-1\<close> the
  report's \<open>maximum_delay\<close> is 0, not \<open>-1\<close>. The loop starts from the report's initial
  \<open>0.0\<close>.
\<close>

theorem maximum_delay_counterexample:
  "maximum_delay (statistics [one_pin\<lparr>delay_time_ms := - 1\<rparr>] new_reporting) = 0 \<and>
   spec_maximum_delay [one_pin\<lparr>delay_time_ms := - 1\<rparr>] = - 1"
  by (simp add: statistics_def new_reporting_def spec_maximum_delay_def)

text \<open>
  Claim C9, amended: for every non-empty processed pin list, the report's
  \<open>maximum_delay\<close>, which the statistics start from 0, is the larger of 0 and the maximum
  of the pins' recorded \<open>delay_ms\<close> values; it is that maximum whenever some recorded
  delay is not negative.
\<close>

theorem maximum_delay_is_max_with_zero:
  assumes "processed \<noteq> []" and "maximum_delay reporting = 0"
  shows "maximum_delay (statistics processed reporting) = max 0 (spec_maximum_delay processed) \<and>
         ((\<exists>pin \<in> set processed. 0 \<le> delay_time_ms pin) \<longrightarrow>
            maximum_delay (statistics processed reporting) = spec_maximum_delay processed)"
proof (intro conjI impI)
  show m: "maximum_delay (statistics processed reporting) = max 0 (spec_maximum_delay processed)"
    using assms by (simp add: statistics_maximum)
  assume "\<exists>pin \<in> set processed. 0 \<le> delay_time_ms pin"
  then obtain pin where "pin \<in> set processed" "0 \<le> delay_time_ms pin" by blast
  then have "0 \<le> spec_maximum_delay processed"
    unfolding spec_maximum_delay_def
    by (intro order_trans [OF _ Max_ge]) auto
  with m show "maximum_delay (statistics processed reporting) = spec_maximum_delay processed"
    by simp
qed

theorem maximum_delay_is_max_with_zero_witness:
  "maximum_delay (statistics [first_at_5\<lparr>delay_time_ms := - 3\<rparr>, at_1\<lparr>delay_time_ms := 2\<rparr>]
     new_reporting) = 2 \<and>
   spec_maximum_delay [first_at_5\<lparr>delay_time_ms := - 3\<rparr>, at_1\<lparr>delay_time_ms := 2\<rparr>] = 2"
  using maximum_delay_is_max_with_zero
      [of "[first_at_5\<lparr>delay_time_ms := - 3\<rparr>, at_1\<lparr>delay_time_ms := 2\<rparr>]" new_reporting]
  by (simp add: new_reporting_def spec_maximum_delay_def)

section \<open>Properties of the socket's receive operation\<close>

lemma receive_loop_takes_all:
  assumes "queue \<noteq> []"
    and "\<forall>(addr, payload) \<in> set queue.
           payload \<noteq> [] \<and> length payload \<le> 1023 \<and> CHR 0x00 \<notin> set payload"
  shows "receive_loop queue received = Ok (received @ spec_poll_inbound queue, [])"
  using assms
proof (induction queue arbitrary: received)
  case Nil
  then show ?case by simp
next
  case (Cons d queue)
  obtain addr payload where d: "d = (addr, payload)" by (cases d)
  from Cons.prems d have p: "payload \<noteq> []" "length payload \<le> 1023" "CHR 0x00 \<notin> set payload"
    by auto
  from p have t: "takeWhile (\<lambda>b. b \<noteq> CHR 0x00) payload = payload"
    by (intro takeWhile_eq_all_conv [THEN iffD2]) auto
  show ?case
  proof (cases "queue = []")
    case True
    with d p show ?thesis by (simp add: spec_poll_inbound_def t del: takeWhile_eq_all_conv)
  next
    case False
    with Cons.prems have "receive_loop queue (received @ [(inet_ntop addr, payload)]) =
        Ok ((received @ [(inet_ntop addr, payload)]) @ spec_poll_inbound queue, [])"
      by (intro Cons.IH) auto
    with d p False show ?thesis by (simp add: spec_poll_inbound_def t del: takeWhile_eq_all_conv)
  qed
qed

text \<open>
  Claim C8 against the code. On a socket with datagrams waiting, \<open>receiveMessages\<close>
  returns the messages of all of them but the oldest: its first \<open>recvfrom\<close> reads the
  oldest datagram and nothing keeps it. With one datagram waiting, that call empties the
  queue and the \<open>recvfrom\<close> of the loop, a blocking read, waits: the operation does not
  return. (The payloads are taken non-empty, within the buffer and free of zero bytes, so
  that nothing else differs from the specification's sequence.)
\<close>

theorem receiveMessages_skips_oldest:
  assumes "socket_initialized sock" and "sockfd sock \<noteq> - 1"
    and "\<forall>(addr, payload) \<in> set queue.
           payload \<noteq> [] \<and> length payload \<le> 1023 \<and> CHR 0x00 \<notin> set payload"
  shows "(inbound sock = oldest # queue \<and> queue \<noteq> [] \<longrightarrow>
            map_result fst (receiveMessages sock) = Ok (spec_poll_inbound queue)) \<and>
         (inbound sock = [oldest] \<longrightarrow> receiveMessages sock = Blocked)"
proof (intro conjI impI)
  assume a: "inbound sock = oldest # queue \<and> queue \<noteq> []"
  obtain addr payload where "oldest = (addr, payload)" by (cases oldest)
  with a assms receive_loop_takes_all [of queue "[]"] show
    "map_result fst (receiveMessages sock) = Ok (spec_poll_inbound queue)"
    by (simp add: receiveMessages_def)
next
  assume a: "inbound sock = [oldest]"
  obtain addr payload where "oldest = (addr, payload)" by (cases oldest)
  with a assms show "receiveMessages sock = Blocked"
    by (simp add: receiveMessages_def)
qed

lemma bound_socket_simps:
  "socket_initialized (bound_socket queue) \<and> sockfd (bound_socket queue) = 3 \<and>
   inbound (bound_socket queue) = queue"
  by (simp add: bound_socket_def initialize_def os_ok_def new_socket_def)

theorem receiveMessages_skips_oldest_witness:
  "map_result fst (receiveMessages (bound_socket [(0xC0000207, ''ab''), (0xC0000208, ''cd'')])) =
     Ok [(''192.0.2.8'', ''cd'')] \<and>
   spec_poll_inbound [(0xC0000207, ''ab''), (0xC0000208, ''cd'')] =
     [(''192.0.2.7'', ''ab''), (''192.0.2.8'', ''cd'')] \<and>
   receiveMessages (bound_socket [(0xC0000207, ''ab'')]) = Blocked"
  using receiveMessages_skips_oldest
      [of "bound_socket [(0xC0000207, ''ab''), (0xC0000208, ''cd'')]" "[(0xC0000208, ''cd'')]"
        "(0xC0000207, ''ab'')"]
    receiveMessages_skips_oldest [of "bound_socket [(0xC0000207, ''ab'')]" "[]" "(0xC0000207, ''ab'')"]
  by (simp add: bound_socket_simps spec_poll_inbound_def inet_ntop_def decimal_def digit_def)

section \<open>Properties of peer discovery\<close>

lemma message_binds_iff:
  assumes "parse cd bytes = Some j" and "bind (at_key j ''f'') get_string = Ok f"
  shows "(binding_conditions cd sock bytes f \<longrightarrow>
            updateAddresses_message cd (ip, bytes) sock = Ok (True, bind_target sock f ip)) \<and>
         (\<not> binding_conditions cd sock bytes f \<longrightarrow>
            (\<forall>b s. updateAddresses_message cd (ip, bytes) sock = Ok (b, s) \<longrightarrow> \<not> b \<and> s = sock))"
  using assms
  by (cases "bind (at_key j ''c'') get_uint16")
     (auto simp: updateAddresses_message_def binding_conditions_def bind_target_def setTargetIP_def
       split: option.splits result.splits)

text \<open>What one message can change: the address of an unresolved device, and the count.\<close>

lemma message_frame:
  assumes "updateAddresses_message cd m sock = Ok (b, sock')"
  shows "total_updates sock \<le> total_updates sock' \<and>
         (\<forall>n d. devices_by_name sock n = Some d \<and> target_ip d \<noteq> [] \<longrightarrow>
            devices_by_name sock' n = Some d)"
proof -
  obtain ip bytes where m: "m = (ip, bytes)" by (cases m)
  show ?thesis
  proof (cases "parse cd bytes")
    case None
    with assms m show ?thesis by (simp add: updateAddresses_message_def)
  next
    case (Some j)
    show ?thesis
    proof (cases "bind (at_key j ''f'') get_string")
      case (Ok f)
      show ?thesis
      proof (cases "devices_by_name sock f")
        case None
        with assms m Some Ok show ?thesis by (auto simp: updateAddresses_message_def)
      next
        case (Some d)
        show ?thesis
        proof (cases "target_ip d = []")
          case False
          with assms m \<open>parse cd bytes = Some j\<close> Ok Some show ?thesis
            by (auto simp: updateAddresses_message_def)
        next
          case True
          with assms m \<open>parse cd bytes = Some j\<close> Ok Some show ?thesis
            by (cases "bind (at_key j ''c'') get_uint16")
               (auto simp: updateAddresses_message_def setTargetIP_def split: option.splits if_splits)
        qed
      qed
    qed (use assms m Some in \<open>auto simp: updateAddresses_message_def\<close>)
  qed
qed

lemma never_rebinds_refl: "never_rebinds sock sock"
  by (simp add: never_rebinds_def)

lemma never_rebinds_trans:
  "never_rebinds a b \<Longrightarrow> never_rebinds b c \<Longrightarrow> never_rebinds a c"
  by (auto simp: never_rebinds_def)

lemma never_rebinds_same:
  "devices_by_name b = devices_by_name a \<Longrightarrow> total_updates b = total_updates a \<Longrightarrow>
     never_rebinds a b"
  by (simp add: never_rebinds_def)

lemma message_never_rebinds:
  "updateAddresses_message cd m sock = Ok (b, sock') \<Longrightarrow> never_rebinds sock sock'"
  using message_frame [of cd m sock b sock'] by (auto simp: never_rebinds_def)

lemma loop_never_rebinds:
  "updateAddresses_loop cd ms u sock = Ok (thrown, u', sock') \<Longrightarrow> never_rebinds sock sock'"
proof (induction ms arbitrary: u sock)
  case Nil
  then show ?case by (simp add: never_rebinds_refl)
next
  case (Cons m ms)
  show ?case
  proof (cases "updateAddresses_message cd m sock")
    case (Ok r)
    obtain b s1 where r: "r = (b, s1)" by (cases r)
    with Cons.prems Ok have "updateAddresses_loop cd ms (u \<or> b) s1 = Ok (thrown, u', sock')"
      by simp
    from Cons.IH [OF this] message_never_rebinds [of cd m sock b s1] Ok r show ?thesis
      by (auto intro: never_rebinds_trans)
  next
    case (Throw e)
    with Cons.prems show ?thesis by (auto simp: never_rebinds_refl)
  qed (use Cons.prems in auto)
qed

lemma receiveMessages_registry:
  "receiveMessages sock = Ok (received, sock') \<Longrightarrow>
     devices_by_name sock' = devices_by_name sock \<and> total_updates sock' = total_updates sock"
  by (cases "recvfrom (inbound sock)";
      cases "receive_loop (snd (snd (case recvfrom (inbound sock) of Ok x \<Rightarrow> x))) []")
     (auto simp: receiveMessages_def Let_def split: if_splits prod.splits)

lemma updateAddresses_never_rebinds:
  assumes "updateAddresses cd sock = Ok (u, sock')"
  shows "never_rebinds sock sock'"
proof (cases "socket_initialized sock \<and> hasMessages sock")
  case False
  with assms show ?thesis by (auto simp: updateAddresses_def never_rebinds_refl)
next
  case True
  with assms obtain received s1 where r: "receiveMessages sock = Ok (received, s1)"
    by (cases "receiveMessages sock") (auto simp: updateAddresses_def)
  with assms True obtain thrown u2 s2 where
    l: "updateAddresses_loop cd (received_messages s1) False s1 = Ok (thrown, u2, s2)"
    by (cases "updateAddresses_loop cd (received_messages s1) False s1")
       (auto simp: updateAddresses_def)
  from assms True r l have
    "devices_by_name sock' = devices_by_name s2 \<and> total_updates sock' = total_updates s2"
    by (auto simp: updateAddresses_def split: option.splits)
  then have "never_rebinds s2 sock'" by (simp add: never_rebinds_same)
  moreover from receiveMessages_registry [OF r] have "never_rebinds sock s1"
    by (simp add: never_rebinds_same)
  moreover from loop_never_rebinds [OF l] have "never_rebinds s1 s2" .
  ultimately show ?thesis by (blast intro: never_rebinds_trans)
qed

lemma sleep_iterations_never_rebinds:
  "sleep_iterations cd ticks sock = Ok sock' \<Longrightarrow> never_rebinds sock sock'"
proof (induction ticks arbitrary: sock)
  case Nil
  then show ?case by (simp add: never_rebinds_refl)
next
  case (Cons arrived later)
  from Cons.prems obtain u s1 where
    a: "updateAddresses cd (sock\<lparr>inbound := inbound sock @ arrived\<rparr>) = Ok (u, s1)"
    and b: "sleep_iterations cd later s1 = Ok sock'"
    by (cases "updateAddresses cd (sock\<lparr>inbound := inbound sock @ arrived\<rparr>)") auto
  have "never_rebinds sock (sock\<lparr>inbound := inbound sock @ arrived\<rparr>)"
    by (simp add: never_rebinds_same)
  with updateAddresses_never_rebinds [OF a] Cons.IH [OF b] show ?case
    by (blast intro: never_rebinds_trans)
qed

lemma sendMessage_registry:
  "devices_by_name (snd (sendMessage d msg sock)) = devices_by_name sock \<and>
   total_updates (snd (sendMessage d msg sock)) = total_updates sock"
  by (simp add: sendMessage_def sendBroadcast_def sendToDevice_def)

lemma pluckTooth_never_rebinds:
  "pluckTooth pin eng = Ok eng' \<Longrightarrow> never_rebinds (talkie_socket eng) (talkie_socket eng')"
  by (auto simp: pluckTooth_def sendMessage_registry never_rebinds_same never_rebinds_refl
      split: option.splits)

lemma play_pin_never_rebinds:
  assumes "play_pin env k pin rest eng = Ok eng'"
  shows "never_rebinds (talkie_socket eng) (talkie_socket eng')"
proof -
  from play_pin_Ok [OF assms] obtain sock eng1 delay where
    s: "highResolutionSleep (lib env) (arrivals env k) (talkie_socket eng) = Ok sock"
    and p: "pluckTooth pin (eng\<lparr>talkie_socket := sock\<rparr>) = Ok eng1"
    and e: "eng' = eng1\<lparr>talkieProcessed := talkieProcessed eng1 @ [pin\<lparr>delay_time_ms := delay\<rparr>],
                      talkieToProcess := rest,
                      play_reporting := process_drag delay (play_reporting eng1)\<rparr>"
    by blast
  from e have "talkie_socket eng' = talkie_socket eng1" by simp
  moreover from s have "never_rebinds (talkie_socket eng) sock"
    unfolding highResolutionSleep_def by (rule sleep_iterations_never_rebinds)
  moreover from pluckTooth_never_rebinds [OF p] have "never_rebinds sock (talkie_socket eng1)"
    by simp
  ultimately show ?thesis by (auto intro: never_rebinds_trans)
qed

lemma play_loop_never_rebinds:
  "play_loop env k pins eng = Ok eng' \<Longrightarrow>
     never_rebinds (talkie_socket eng) (talkie_socket eng')"
proof (induction pins arbitrary: k eng)
  case Nil
  then show ?case by (simp add: never_rebinds_refl)
next
  case (Cons pin rest)
  from Cons.prems obtain eng1 where
    a: "play_pin env k pin rest eng = Ok eng1" and b: "play_loop env (Suc k) rest eng1 = Ok eng'"
    by (cases "play_pin env k pin rest eng") auto
  from play_pin_never_rebinds [OF a] Cons.IH [OF b] show ?case
    by (blast intro: never_rebinds_trans)
qed

subsection \<open>The advertisement of the examples\<close>

lemma advert_checksum: "calculate_checksum advert_text = Some 28208"
  by (simp add: calculate_checksum_def advert_text_def quoted_def preprocess_def c_colon_before_def
      not_digit_def upt_rec fold_checksum_def xor_loop.simps)

lemma advert_buffer:
  "take 1023 advert_text = advert_text \<and>
   takeWhile (\<lambda>b. b \<noteq> CHR 0x00) advert_text = advert_text \<and>
   advert_text \<noteq> [] \<and> ''junk'' \<noteq> advert_text"
  by (simp add: advert_text_def quoted_def)

lemma advert_parsed:
  "parse (reading advert_text advert_json) advert_text = Some advert_json \<and>
   parse (reading advert_text advert_json) ''junk'' = None \<and>
   bind (at_key advert_json ''f'') get_string = Ok ''A'' \<and>
   bind (at_key advert_json ''c'') get_uint16 = Ok 28208"
  by (simp add: reading_def advert_json_def advert_buffer)

lemma socket_with_A_simps:
  "socket_initialized (socket_with_A q) \<and> sockfd (socket_with_A q) = 3 \<and>
   inbound (socket_with_A q) = q \<and>
   devices_by_name (socket_with_A q) = [''A'' \<mapsto> \<lparr>target_ip = [], target_port = 5005\<rparr>] \<and>
   total_updates (socket_with_A q) = 0 \<and> cerr (socket_with_A q) = [] \<and>
   (socket_with_A q)\<lparr>received_messages := r, inbound := []\<rparr> =
     (socket_with_A [])\<lparr>received_messages := r\<rparr>"
  by (simp add: socket_with_A_def bound_socket_def initialize_def os_ok_def new_socket_def)

lemma advert_conditions:
  "binding_conditions (reading advert_text advert_json) (socket_with_A q) advert_text ''A''"
  by (simp add: binding_conditions_def socket_with_A_simps advert_parsed advert_checksum)

lemma tick_binds_A:
  "updateAddresses (reading advert_text advert_json)
     (socket_with_A [(1, ''x''), (0xC0000207, advert_text)]) =
   Ok (True, (socket_with_A [])
     \<lparr>received_messages := [(''192.0.2.7'', advert_text)],
      devices_by_name := [''A'' \<mapsto> \<lparr>target_ip = ''192.0.2.7'', target_port = 5005\<rparr>],
      total_updates := 1\<rparr>)"
  by (simp add: updateAddresses_def hasMessages_def receiveMessages_def inet_ntop_def decimal_def
      digit_def updateAddresses_message_def Let_def setTargetIP_def socket_with_A_simps
      advert_buffer advert_parsed advert_checksum)

lemma tick_stops_at_junk:
  "updateAddresses (reading advert_text advert_json)
     (socket_with_A [(1, ''x''), (2, ''junk''), (0xC0000207, advert_text)]) =
   Ok (False, (socket_with_A [])
     \<lparr>received_messages := [(''0.0.0.2'', ''junk''), (''192.0.2.7'', advert_text)],
      cerr := [''Fatal error while updating Addresses: '']\<rparr>)"
  by (simp add: updateAddresses_def hasMessages_def receiveMessages_def inet_ntop_def decimal_def
      digit_def updateAddresses_message_def Let_def setTargetIP_def socket_with_A_simps
      advert_buffer advert_parsed advert_checksum)

text \<open>
  Claim C5, as stated, fails. The tick reads two datagrams into \<open>received_messages\<close>:
  one that is not JSON, then the advertisement of \<open>A\<close>, which parses, names a registered
  and unresolved device and carries the right checksum. The first message throws, the
  handler ends the tick, and \<open>A\<close> stays unresolved.
\<close>

theorem discovery_binding_counterexample:
  "binding_conditions (reading advert_text advert_json) (socket_with_A []) advert_text ''A'' \<and>
   map_result (\<lambda>(updated, sock).
       (updated, received_messages sock, map_option target_ip (devices_by_name sock ''A'')))
     (updateAddresses (reading advert_text advert_json)
        (socket_with_A [(1, ''x''), (2, ''junk''), (0xC0000207, advert_text)])) =
   Ok (False, [(''0.0.0.2'', ''junk''), (''192.0.2.7'', advert_text)], Some [])"
  by (simp add: advert_conditions tick_stops_at_junk socket_with_A_simps)

text \<open>
  Claim C5, amended. A tick works through the messages it has read in order and ends at
  the first one that throws (the rest of them is not looked at). A message that the loop
  reaches and that parses as JSON with a string field \<open>f\<close> binds \<open>target_ip := sender_ip\<close>
  for the device registered under \<open>f\<close>, and counts it, exactly when \<open>f\<close> is in the name
  registry, that device has no address yet and the carried \<open>c\<close>, read as \<open>uint16_t\<close>, is
  the checksum computed over the received bytes; otherwise, if the message returns at
  all, it changes nothing. So over a tick, and over the whole playing loop, a device that
  has an address keeps it and \<open>total_updates\<close> does not decrease.
\<close>

theorem discovery_binding:
  "(parse cd bytes = Some j \<and> bind (at_key j ''f'') get_string = Ok f \<longrightarrow>
      (binding_conditions cd sock bytes f \<longrightarrow>
         updateAddresses_message cd (ip, bytes) sock = Ok (True, bind_target sock f ip)) \<and>
      (\<not> binding_conditions cd sock bytes f \<longrightarrow>
         (\<forall>b s. updateAddresses_message cd (ip, bytes) sock = Ok (b, s) \<longrightarrow> \<not> b \<and> s = sock))) \<and>
   (updateAddresses_message cd m sock = Throw e \<longrightarrow>
      updateAddresses_loop cd (m # rest) u sock = Ok (Some e, u, sock)) \<and>
   (updateAddresses cd sock = Ok (updated, sock') \<longrightarrow> never_rebinds sock sock') \<and>
   (play_loop env k pins eng = Ok eng' \<longrightarrow>
      never_rebinds (talkie_socket eng) (talkie_socket eng'))"
  using message_binds_iff [of cd bytes j f sock ip]
    updateAddresses_never_rebinds [of cd sock updated sock']
    play_loop_never_rebinds [of env k pins eng eng']
  by auto

lemma junk_throws:
  "updateAddresses_message (reading advert_text advert_json) (sender, ''junk'') sock =
     Throw parse_error"
  by (simp add: updateAddresses_message_def advert_parsed)

theorem discovery_binding_witness:
  "updateAddresses_message (reading advert_text advert_json) (''192.0.2.7'', advert_text)
     (socket_with_A []) =
     Ok (True, bind_target (socket_with_A []) ''A'' ''192.0.2.7'') \<and>
   updateAddresses_loop (reading advert_text advert_json)
     [(''0.0.0.2'', ''junk''), (''192.0.2.7'', advert_text)] False (socket_with_A []) =
     Ok (Some parse_error, False, socket_with_A []) \<and>
   never_rebinds (socket_with_A [(1, ''x''), (0xC0000207, advert_text)])
     ((socket_with_A [])
       \<lparr>received_messages := [(''192.0.2.7'', advert_text)],
        devices_by_name := [''A'' \<mapsto> \<lparr>target_ip = ''192.0.2.7'', target_port = 5005\<rparr>],
        total_updates := 1\<rparr>) \<and>
   never_rebinds (talkie_socket one_pin_engine) (talkie_socket one_pin_played)"
proof -
  let ?cd = "reading advert_text advert_json"
  let ?bound = "(socket_with_A [])
       \<lparr>received_messages := [(''192.0.2.7'', advert_text)],
        devices_by_name := [''A'' \<mapsto> \<lparr>target_ip = ''192.0.2.7'', target_port = 5005\<rparr>],
        total_updates := 1\<rparr>"
  have parsed: "parse ?cd advert_text = Some advert_json \<and>
      bind (at_key advert_json ''f'') get_string = Ok ''A''"
    by (simp add: advert_parsed)
  have throws: "updateAddresses_message ?cd (''0.0.0.2'', ''junk'') (socket_with_A []) =
      Throw parse_error"
    by (rule junk_throws)
  have played: "play_loop (quiet ?cd os_ok) 0 [one_pin] one_pin_engine = Ok one_pin_played"
    by (rule play_loop_one_pin)
  from discovery_binding [of ?cd advert_text advert_json "''A''" "socket_with_A []"
      "''192.0.2.7''" "(''0.0.0.2'', ''junk'')" parse_error "[(''192.0.2.7'', advert_text)]"
      False True "socket_with_A []" "quiet ?cd os_ok" 0 "[one_pin]" one_pin_engine
      one_pin_played]
    parsed throws played advert_conditions [of "[]"]
  have first: "updateAddresses_message ?cd (''192.0.2.7'', advert_text) (socket_with_A []) =
      Ok (True, bind_target (socket_with_A []) ''A'' ''192.0.2.7'')"
    and second: "updateAddresses_loop ?cd [(''0.0.0.2'', ''junk''), (''192.0.2.7'', advert_text)]
      False (socket_with_A []) = Ok (Some parse_error, False, socket_with_A [])"
    and fourth: "never_rebinds (talkie_socket one_pin_engine) (talkie_socket one_pin_played)"
    by simp_all
  from discovery_binding [of ?cd advert_text advert_json "''A''"
      "socket_with_A [(1, ''x''), (0xC0000207, advert_text)]"
      "''192.0.2.7''" "(''0.0.0.2'', ''junk'')" parse_error "[]"
      False True ?bound "quiet ?cd os_ok" 0 "[one_pin]" one_pin_engine one_pin_played]
    tick_binds_A
  have third: "never_rebinds (socket_with_A [(1, ''x''), (0xC0000207, advert_text)]) ?bound"
    by simp
  from first second third fourth show ?thesis by simp
qed

section \<open>Properties of ingestion and of PlayList\<close>

lemma bind_eq_Ok: "bind r f = Ok y \<longleftrightarrow> (\<exists>x. r = Ok x \<and> f x = Ok y)"
  by (cases r) auto

lemma bind_eq_Throw:
  "bind r f = Throw e \<longleftrightarrow> r = Throw e \<or> (\<exists>x. r = Ok x \<and> f x = Throw e)"
  by (cases r) auto

subsection \<open>Ingestion throws type errors only\<close>

lemma at_key_throws: "at_key j k = Throw e \<Longrightarrow> e = type_error 305"
  by (cases j) auto

lemma set_key_throws: "set_key j k v = Throw e \<Longrightarrow> e = type_error 305"
  by (cases j) auto

lemma get_throws:
  "get_double j = Throw e \<Longrightarrow> e = type_error 302"
  "get_int j = Throw e \<Longrightarrow> e = type_error 302"
  "get_uint8 j = Throw e \<Longrightarrow> e = type_error 302"
  "get_string j = Throw e \<Longrightarrow> e = type_error 302"
  by (cases j; auto)+

lemma stamp_checksum_throws: "stamp_checksum cd j = Throw e \<Longrightarrow> e = type_error 305"
  by (auto simp: stamp_checksum_def bind_eq_Throw split: option.splits dest: set_key_throws)

lemma sendTempo_never_throws: "sendTempo cd device m n d sock \<noteq> Throw e"
  by (auto simp: sendTempo_def Let_def split: result.splits)

lemma device_by_name_never_throws: "device_by_name cd name port m n d eng \<noteq> Throw e"
  by (auto simp: device_by_name_def Let_def bind_eq_Throw sendTempo_never_throws
      split: option.splits)

lemma device_by_channel_never_throws: "device_by_channel cd i c port m n d eng \<noteq> Throw e"
  by (auto simp: device_by_channel_def Let_def bind_eq_Throw sendTempo_never_throws
      split: option.splits)

lemma ingest_element_throws:
  "ingest_element cd delay_ms i jsonElement st = Throw e \<Longrightarrow> e \<noteq> parse_error"
  by (cases st)
     (auto simp: ingest_element_def Let_def bind_eq_Throw device_by_name_never_throws
       device_by_channel_never_throws split: if_splits
       dest!: at_key_throws set_key_throws get_throws stamp_checksum_throws)

lemma ingest_content_throws:
  "ingest_content cd delay_ms i es st = Throw e \<Longrightarrow> e \<noteq> parse_error"
  by (induction es arbitrary: st) (auto simp: bind_eq_Throw dest: ingest_element_throws)

lemma ingest_file_throws:
  "ingest_file cd delay_ms verbose i jsonData eng = Throw e \<Longrightarrow> e \<noteq> parse_error"
  by (auto simp: ingest_file_def Let_def bind_eq_Throw
      split: result.splits exn.splits if_splits prod.splits dest: ingest_content_throws)

text \<open>
  The loop over the files never throws \<open>parse_error\<close>: the handler of the outer \<open>try\<close>
  only ever answers \<open>json::parse\<close>, and the handler of the inner one never runs.
\<close>

lemma ingest_files_throw:
  "ingest_files cd delay_ms verbose i js eng = Throw e \<Longrightarrow> e \<noteq> parse_error"
  by (induction js arbitrary: i eng) (auto simp: bind_eq_Throw dest: ingest_file_throws)

lemma get_double_not_number: "\<not> is_number j \<Longrightarrow> get_double j = Throw (type_error 302)"
  by (cases j) auto

subsection \<open>The examples' sockets\<close>

lemma initialize_os_ok: "initialize os_ok (new_socket []) = (True, bound_socket [])"
  by (simp add: bound_socket_def initialize_def os_ok_def new_socket_def)

lemma bound_socket_fields:
  "socket_initialized (bound_socket q) \<and> sockfd (bound_socket q) = 3 \<and>
   inbound (bound_socket q) = q \<and> devices_by_name (bound_socket q) = Map.empty \<and>
   outbound (bound_socket q) = [] \<and> cerr (bound_socket q) = []"
  by (simp add: bound_socket_def initialize_def os_ok_def new_socket_def)

lemma checksum_braces: "calculate_checksum ''{}'' = Some 31613"
  by (simp add: calculate_checksum_def preprocess_def c_colon_before_def
      not_digit_def upt_rec fold_checksum_def xor_loop.simps)

text \<open>
  Claim C1 against the code. Let the socket initialise and the text parse to a list of
  files, let the first file be of the player's type with a content whose first entry has
  \<open>port\<close>, \<open>time_ms\<close> and \<open>message\<close>, and let that entry's \<open>time_ms\<close> not be a number.
  Then the conversion to \<open>double\<close> throws \<open>type_error\<close> 302; the loop body has no handler
  and the two \<open>try\<close> blocks around it catch \<open>parse_error\<close> only, so the exception leaves
  \<open>PlayList\<close>: nothing is skipped, and no later entry or file is read.
\<close>

theorem type_error_leaves_PlayList:
  assumes "fst (initialize (os env) (new_socket []))"
    and "parse (lib env) json_str = Some json_files_data"
    and "items json_files_data = jsonData # later_files"
    and "at_key jsonData ''filetype'' = Ok (JString FILE_TYPE)"
    and "at_key jsonData ''url'' = Ok (JString FILE_URL)"
    and "at_key jsonData ''content'' = Ok jsonFileContent"
    and "items jsonFileContent = jsonElement # later_entries"
    and "json_contains jsonElement ''port'' \<and> json_contains jsonElement ''time_ms'' \<and>
         json_contains jsonElement ''message''"
    and "at_key jsonElement ''time_ms'' = Ok time"
    and "\<not> is_number time"
  shows "PlayList env json_str delay_ms verbose = Throw (type_error 302)"
proof -
  have e: "ingest_element (lib env) delay_ms 0 jsonElement st = Throw (type_error 302)" for st
    using assms(8,9) get_double_not_number [OF assms(10)]
    by (cases st) (simp add: ingest_element_def)
  have f: "ingest_file (lib env) delay_ms verbose 0 jsonData eng = Throw (type_error 302)" for eng
    using assms(4,5,6,7) e by (simp add: ingest_file_def Let_def)
  have "ingest (lib env) json_str delay_ms verbose eng = Throw (type_error 302)" for eng
    using assms(2,3) f by (simp add: ingest_def)
  with assms(1) show ?thesis
    by (cases "initialize (os env) (new_socket [])") (simp add: PlayList_def)
qed

theorem type_error_leaves_PlayList_witness:
  "PlayList (quiet soon_lib os_ok) (play_list_text (quoted ''soon'') (quoted ''A'')) 0 False =
     Throw (type_error 302)"
  using type_error_leaves_PlayList
      [of "quiet soon_lib os_ok" "play_list_text (quoted ''soon'') (quoted ''A'')"
        "play_list_json (JString ''soon'') (JString ''A'')"
        "file_json (JArray [entry_json (JString ''soon'') (JString ''A'')])" "[]"
        "JArray [entry_json (JString ''soon'') (JString ''A'')]"
        "entry_json (JString ''soon'') (JString ''A'')" "[]" "JString ''soon''" 0 False]
  by (simp add: quiet_def soon_lib_def reading_def initialize_os_ok play_list_json_def
      file_json_def entry_json_def)

text \<open>
  Claim C2 against the code. Whenever \<open>PlayList\<close> returns, it returns 0. When the
  socket cannot be initialised it returns 0 as well: nothing has been handed to
  \<open>sendto\<close>, \<open>initialize\<close> has written its diagnostic to the error stream, and the
  engine is as it was constructed.
\<close>

theorem PlayList_returns_0_on_startup_failure:
  "(PlayList env json_str delay_ms verbose = Ok (rc, final) \<longrightarrow> rc = 0) \<and>
   (\<not> fst (initialize (os env) (new_socket [])) \<longrightarrow>
      PlayList env json_str delay_ms verbose =
        Ok (0, start_engine (snd (initialize (os env) (new_socket [])))) \<and>
      outbound (snd (initialize (os env) (new_socket []))) = [] \<and>
      cerr (snd (initialize (os env) (new_socket []))) \<noteq> [])"
  by (auto simp: PlayList_def Let_def bind_eq_Ok initialize_def new_socket_def
      split: prod.splits if_splits)

theorem PlayList_returns_0_on_startup_failure_witness:
  "PlayList (quiet soon_lib os_port_taken) (play_list_text ''0'' (quoted ''A'')) 0 False =
     Ok (0, start_engine ((new_socket [])\<lparr>sockfd := - 1, cerr := [''Bind failed: '']\<rparr>))"
  using PlayList_returns_0_on_startup_failure
      [of "quiet soon_lib os_port_taken" "play_list_text ''0'' (quoted ''A'')" 0 False 0
        "start_engine ((new_socket [])\<lparr>sockfd := - 1, cerr := [''Bind failed: '']\<rparr>)"]
  by (simp add: quiet_def initialize_def os_port_taken_def new_socket_def)

subsection \<open>Devices created from a channel\<close>

lemma device_by_name_maps:
  "device_by_name cd name port message bpm_n bpm_d eng = Ok (ref, eng') \<Longrightarrow>
     channel_maps eng' = channel_maps eng"
  by (auto simp: device_by_name_def Let_def bind_eq_Ok split: option.splits if_splits)

lemma device_by_channel_maps:
  "device_by_channel cd i channel port message bpm_n bpm_d eng = Ok (ref, eng') \<Longrightarrow>
     f \<noteq> i \<Longrightarrow> channel_maps eng' f = channel_maps eng f"
  by (auto simp: device_by_channel_def Let_def bind_eq_Ok split: option.splits if_splits)

lemma ingest_element_maps:
  assumes "ingest_element cd delay_ms i jsonElement (n, d, eng) = Ok (n', d', eng')"
    and "f \<noteq> i"
  shows "channel_maps eng' f = channel_maps eng f"
  using assms
  by (auto simp: ingest_element_def Let_def bind_eq_Ok push_pin_def split: if_splits
      dest!: device_by_name_maps device_by_channel_maps [where f = f])

lemma ingest_content_maps:
  "ingest_content cd delay_ms i es (n, d, eng) = Ok (n', d', eng') \<Longrightarrow> f \<noteq> i \<Longrightarrow>
     channel_maps eng' f = channel_maps eng f"
proof (induction es arbitrary: n d eng)
  case Nil
  then show ?case by simp
next
  case (Cons e es)
  from Cons.prems(1) obtain n1 d1 eng1 where
    a: "ingest_element cd delay_ms i e (n, d, eng) = Ok (n1, d1, eng1)"
    and b: "ingest_content cd delay_ms i es (n1, d1, eng1) = Ok (n', d', eng')"
    by (auto simp: bind_eq_Ok)
  from ingest_element_maps [OF a Cons.prems(2)] Cons.IH [OF b Cons.prems(2)] show ?case
    by simp
qed

lemma log_verbose_maps: "channel_maps (log_verbose v line eng) = channel_maps eng"
  by (simp add: log_verbose_def)

text \<open>A pass of the loop over the files leaves no map behind that was not there before.\<close>

lemma ingest_file_maps:
  assumes "ingest_file cd delay_ms verbose i jsonData eng = Ok eng'"
    and "channel_maps eng f = None"
  shows "channel_maps eng' f = None"
proof (cases "bind (at_key jsonData ''filetype'') (\<lambda>jsonFileType.
           bind (at_key jsonData ''url'') (\<lambda>jsonFileUrl.
           bind (at_key jsonData ''content'') (\<lambda>jsonFileContent.
             Ok (jsonFileType, jsonFileUrl, jsonFileContent))))")
  case (Ok extracted)
  obtain ty url content where x: "extracted = (ty, url, content)" by (cases extracted)
  show ?thesis
  proof (cases "ty \<noteq> JString FILE_TYPE \<or> url \<noteq> JString FILE_URL")
    case True
    with assms Ok x show ?thesis by (auto simp: ingest_file_def log_verbose_maps)
  next
    case False
    define start where "start =
        (if \<not> is_array content \<or> json_empty content
         then log_verbose verbose ''JSON file is empty.'' eng else eng)
        \<lparr>channel_maps := (channel_maps eng)(i \<mapsto> Map.empty)\<rparr>"
    have s: "channel_maps start = (channel_maps eng)(i \<mapsto> Map.empty)"
      by (simp add: start_def)
    from False assms(1) Ok x obtain n d eng1 where
      c: "ingest_content cd delay_ms i (items content) (0, 0, start) = Ok (n, d, eng1)"
      and e: "eng' = eng1\<lparr>channel_maps := (channel_maps eng1)(i := None)\<rparr>"
      by (auto simp: ingest_file_def Let_def bind_eq_Ok log_verbose_maps start_def
          split: if_splits)
    show ?thesis
    proof (cases "f = i")
      case True
      with e show ?thesis by simp
    next
      case False
      with ingest_content_maps [OF c False] s e assms(2) show ?thesis by simp
    qed
  qed
next
  case (Throw e)
  with assms show ?thesis by (cases e) (auto simp: ingest_file_def log_verbose_maps)
qed (use assms in \<open>auto simp: ingest_file_def\<close>)

lemma ingest_files_maps:
  "ingest_files cd delay_ms verbose i js eng = Ok eng' \<Longrightarrow> channel_maps eng f = None \<Longrightarrow>
     channel_maps eng' f = None"
proof (induction js arbitrary: i eng)
  case Nil
  then show ?case by simp
next
  case (Cons j js)
  from Cons.prems(1) obtain eng1 where
    a: "ingest_file cd delay_ms verbose i j eng = Ok eng1"
    and b: "ingest_files cd delay_ms verbose (Suc i) js eng1 = Ok eng'"
    by (auto simp: bind_eq_Ok)
  from ingest_file_maps [OF a Cons.prems(2)] Cons.IH [OF b] show ?case by simp
qed

lemma ingest_maps:
  assumes "ingest cd json_str delay_ms verbose eng = Ok eng'"
    and "channel_maps eng = Map.empty"
  shows "channel_maps eng' = Map.empty"
proof (cases "parse cd json_str")
  case None
  with assms show ?thesis by (auto simp: ingest_def log_verbose_maps)
next
  case (Some files)
  show ?thesis
  proof (cases "ingest_files cd delay_ms verbose 0 (items files) eng")
    case (Ok eng1)
    with assms(1) Some have "eng1 = eng'" by (simp add: ingest_def)
    with ingest_files_maps [OF Ok] assms(2) show ?thesis by auto
  next
    case (Throw e)
    with assms Some show ?thesis by (cases e) (auto simp: ingest_def log_verbose_maps)
  qed (use assms Some in \<open>auto simp: ingest_def\<close>)
qed

text \<open>While a file is read, the devices of its channels have no address.\<close>

lemma device_by_name_unresolved:
  "device_by_name cd name port message bpm_n bpm_d eng = Ok (ref, eng') \<Longrightarrow>
     channels_unresolved eng \<Longrightarrow> channels_unresolved eng'"
  by (drule device_by_name_maps) (simp add: channels_unresolved_def)

lemma device_by_channel_unresolved:
  "device_by_channel cd i channel port message bpm_n bpm_d eng = Ok (ref, eng') \<Longrightarrow>
     channels_unresolved eng \<Longrightarrow> channels_unresolved eng'"
  unfolding channels_unresolved_def
  by (auto simp: device_by_channel_def Let_def bind_eq_Ok split: option.splits if_splits)

lemma push_pin_unresolved:
  "channels_unresolved (push_pin t ref m eng) = channels_unresolved eng"
  by (simp add: channels_unresolved_def push_pin_def)

lemma ingest_element_unresolved:
  assumes "ingest_element cd delay_ms i jsonElement (n, d, eng) = Ok (n', d', eng')"
    and "channels_unresolved eng"
  shows "channels_unresolved eng'"
proof -
  have u: "channels_unresolved (eng\<lparr>play_reporting := r\<rparr>)" for r
    using assms(2) by (simp add: channels_unresolved_def)
  from assms(1) show ?thesis
    using assms(2) u
    by (auto simp: ingest_element_def Let_def bind_eq_Ok push_pin_unresolved split: if_splits
        dest: device_by_name_unresolved device_by_channel_unresolved)
qed

lemma ingest_content_unresolved:
  "ingest_content cd delay_ms i es (n, d, eng) = Ok (n', d', eng') \<Longrightarrow>
     channels_unresolved eng \<Longrightarrow> channels_unresolved eng'"
proof (induction es arbitrary: n d eng)
  case Nil
  then show ?case by simp
next
  case (Cons e es)
  from Cons.prems(1) obtain n1 d1 eng1 where
    a: "ingest_element cd delay_ms i e (n, d, eng) = Ok (n1, d1, eng1)"
    and b: "ingest_content cd delay_ms i es (n1, d1, eng1) = Ok (n', d', eng')"
    by (auto simp: bind_eq_Ok)
  from ingest_element_unresolved [OF a Cons.prems(2)] Cons.IH [OF b] show ?case by simp
qed

text \<open>In the playing loop no \<open>devices_by_channel\<close> map comes back.\<close>

lemma play_pin_plucks:
  assumes "play_pin env k pin rest eng = Ok eng'"
  shows "\<exists>sock eng1. pluckTooth pin (eng\<lparr>talkie_socket := sock\<rparr>) = Ok eng1 \<and>
           channel_maps eng' = channel_maps eng1"
proof -
  from play_pin_Ok [OF assms] obtain sock eng1 delay where
    p: "pluckTooth pin (eng\<lparr>talkie_socket := sock\<rparr>) = Ok eng1"
    and e: "eng' = eng1\<lparr>talkieProcessed := talkieProcessed eng1 @ [pin\<lparr>delay_time_ms := delay\<rparr>],
                      talkieToProcess := rest,
                      play_reporting := process_drag delay (play_reporting eng1)\<rparr>"
    by blast
  from e have "channel_maps eng' = channel_maps eng1" by simp
  with p show ?thesis by blast
qed

lemma play_pin_maps:
  "play_pin env k pin rest eng = Ok eng' \<Longrightarrow> channel_maps eng' = channel_maps eng"
  using play_pin_plucks [of env k pin rest eng eng'] by (auto dest: pluckTooth_frame)

lemma play_pin_dangling:
  assumes "channel_maps eng = Map.empty" and "talkie_device pin = Some (ByChannel i channel)"
  shows "play_pin env k pin rest eng \<noteq> Ok eng'"
proof
  assume "play_pin env k pin rest eng = Ok eng'"
  from play_pin_plucks [OF this] obtain sock eng1 where
    "pluckTooth pin (eng\<lparr>talkie_socket := sock\<rparr>) = Ok eng1" by blast
  with assms show False by (simp add: pluckTooth_def)
qed

lemma play_loop_dangling:
  "channel_maps eng = Map.empty \<Longrightarrow> pin \<in> set pins \<Longrightarrow>
     talkie_device pin = Some (ByChannel i channel) \<Longrightarrow> play_loop env k pins eng \<noteq> Ok eng'"
proof (induction pins arbitrary: k eng)
  case Nil
  then show ?case by simp
next
  case (Cons p rest)
  show ?case
  proof
    assume "play_loop env k (p # rest) eng = Ok eng'"
    then obtain eng1 where
      a: "play_pin env k p rest eng = Ok eng1" and b: "play_loop env (Suc k) rest eng1 = Ok eng'"
      by (auto simp: bind_eq_Ok)
    from play_pin_maps [OF a] Cons.prems(1) have m: "channel_maps eng1 = Map.empty" by simp
    show False
    proof (cases "pin = p")
      case True
      with a play_pin_dangling [OF Cons.prems(1), of p i channel env k rest eng1] Cons.prems(3)
      show False by simp
    next
      case False
      with Cons.prems(2) have "pin \<in> set rest" by simp
      from Cons.IH [OF m this Cons.prems(3)] b show False by simp
    qed
  qed
qed

text \<open>
  Claim C10 against the code. While a file's content is read, every device of its
  \<open>devices_by_channel\<close> map has an empty \<open>target_ip\<close>, as the claim says. But that map
  is a variable of the body of the loop over the files: when ingestion has returned, no
  such map exists, and a pin made for a channel points to a device that has been
  destroyed. \<open>pluckTooth\<close> on it is undefined behaviour, so \<open>PlayList\<close> completes no run
  that holds a channel-addressed pin, as a broadcast or otherwise.
\<close>

theorem channel_pins_outlive_their_devices:
  "(ingest_content cd delay_ms i entries (n, d, eng0) = Ok (n', d', eng1) \<and>
      channels_unresolved eng0 \<longrightarrow> channels_unresolved eng1) \<and>
   (fst (initialize (os env) (new_socket [])) \<and>
    ingest (lib env) json_str delay_ms verbose
      (start_engine (snd (initialize (os env) (new_socket [])))) = Ok eng \<and>
    pin \<in> set (talkieToProcess eng) \<and> talkie_device pin = Some (ByChannel j channel) \<longrightarrow>
      channel_maps eng = Map.empty \<and> deref eng (ByChannel j channel) = None \<and>
      pluckTooth pin eng = Undefined \<and>
      PlayList env json_str delay_ms verbose \<noteq> Ok (rc, final))"
proof (intro conjI impI)
  assume "ingest_content cd delay_ms i entries (n, d, eng0) = Ok (n', d', eng1) \<and>
      channels_unresolved eng0"
  then show "channels_unresolved eng1"
    using ingest_content_unresolved by blast
next
  assume a: "fst (initialize (os env) (new_socket [])) \<and>
    ingest (lib env) json_str delay_ms verbose
      (start_engine (snd (initialize (os env) (new_socket [])))) = Ok eng \<and>
    pin \<in> set (talkieToProcess eng) \<and> talkie_device pin = Some (ByChannel j channel)"
  then have i: "ingest (lib env) json_str delay_ms verbose
      (start_engine (snd (initialize (os env) (new_socket [])))) = Ok eng"
    by simp
  show m: "channel_maps eng = Map.empty"
    using i by (rule ingest_maps) (simp add: start_engine_def)
  then show "deref eng (ByChannel j channel) = None" by simp
  with a show "pluckTooth pin eng = Undefined" by (simp add: pluckTooth_def)
  let ?sorted = "eng\<lparr>talkieToProcess := sort_pins (talkieToProcess eng)\<rparr>
      \<lparr>play_reporting := (play_reporting eng)\<lparr>json_processing := processing_ms env\<rparr>\<rparr>"
  have "pin \<in> set (sort_pins (talkieToProcess eng))"
    using a by (simp add: sort_pins_def)
  moreover have "channel_maps ?sorted = Map.empty" using m by simp
  ultimately have "play_loop env 0 (sort_pins (talkieToProcess eng)) ?sorted \<noteq> Ok e" for e
    using a by (intro play_loop_dangling) auto
  with a show "PlayList env json_str delay_ms verbose \<noteq> Ok (rc, final)"
    by (auto simp: PlayList_def Let_def bind_eq_Ok split: prod.splits if_splits)
qed

lemma ingest_content_channel:
  "ingest_content channel_lib 0 0 [entry_json (JInt 0) (JInt 1)]
     (0, 0, (start_engine (bound_socket []))\<lparr>channel_maps := [0 \<mapsto> Map.empty]\<rparr>) =
   Ok (0, 0, channel_engine_reading)"
  by (simp add: channel_lib_def reading_def entry_json_def ingest_element_def
      Let_def stamp_checksum_def checksum_braces message_id_def trunc_def device_by_channel_def
      push_pin_def start_engine_def new_reporting_def channel_engine_def
      channel_engine_reading_def)

lemma ingest_channel:
  "ingest channel_lib (play_list_text ''0'' ''1'') 0 False (start_engine (bound_socket [])) =
     Ok channel_engine"
  by (simp add: ingest_def channel_lib_def reading_def play_list_json_def file_json_def
      entry_json_def ingest_file_def ingest_element_def
      Let_def stamp_checksum_def checksum_braces message_id_def trunc_def device_by_channel_def
      push_pin_def start_engine_def new_reporting_def channel_engine_def)

lemma quiet_fields:
  "lib (quiet cd setup) = cd \<and> os (quiet cd setup) = setup \<and>
   arrivals (quiet cd setup) k = ([], []) \<and> pluck_time_us (quiet cd setup) k = 120000 \<and>
   processing_ms (quiet cd setup) = 0"
  by (simp add: quiet_def)

lemma PlayList_channel:
  "PlayList (quiet channel_lib os_ok) (play_list_text ''0'' ''1'') 0 False = Undefined"
proof -
  have pluck: "play_pin (quiet channel_lib os_ok) 0 (new_pin 0 (ByChannel 0 1) ''{}'') [] eng =
      Undefined" if "channel_maps eng = Map.empty" and "talkie_socket eng = bound_socket []"
    for eng
    using that
    by (simp add: play_pin_def highResolutionSleep_def updateAddresses_def hasMessages_def
        quiet_fields bound_socket_fields pluckTooth_def new_pin_def c_round_def fits_long_long_def)
  have due: "time_ms (new_pin 0 (ByChannel 0 1) ''{}'') = 0"
    by (simp add: new_pin_def)
  show ?thesis
    by (simp add: PlayList_def quiet_fields initialize_os_ok ingest_channel)
       (simp add: channel_engine_def sort_pins_def start_engine_def pluck due c_round_def
          fits_size_t_def)
qed

theorem channel_pins_outlive_their_devices_witness:
  "PlayList (quiet channel_lib os_ok) (play_list_text ''0'' ''1'') 0 False = Undefined \<and>
   channels_unresolved channel_engine_reading \<and>
   channel_maps channel_engine = Map.empty \<and>
   deref channel_engine (ByChannel 0 1) = None \<and>
   pluckTooth (new_pin 0 (ByChannel 0 1) ''{}'') channel_engine = Undefined"
proof -
  have start: "channels_unresolved ((start_engine (bound_socket []))\<lparr>channel_maps := [0 \<mapsto> Map.empty]\<rparr>)"
    by (simp add: channels_unresolved_def)
  have init: "fst (initialize (os (quiet channel_lib os_ok)) (new_socket []))"
    by (simp add: quiet_fields initialize_os_ok)
  have ingested: "ingest (lib (quiet channel_lib os_ok)) (play_list_text ''0'' ''1'') 0 False
      (start_engine (snd (initialize (os (quiet channel_lib os_ok)) (new_socket [])))) =
      Ok channel_engine"
    by (simp add: quiet_fields initialize_os_ok ingest_channel)
  have pin: "new_pin 0 (ByChannel 0 1) ''{}'' \<in> set (talkieToProcess channel_engine) \<and>
      talkie_device (new_pin 0 (ByChannel 0 1) ''{}'') = Some (ByChannel 0 1)"
    by (simp add: channel_engine_def new_pin_def)
  from channel_pins_outlive_their_devices
      [of channel_lib 0 0 "[entry_json (JInt 0) (JInt 1)]" 0 0
        "(start_engine (bound_socket []))\<lparr>channel_maps := [0 \<mapsto> Map.empty]\<rparr>" 0 0
        channel_engine_reading "quiet channel_lib os_ok" "play_list_text ''0'' ''1''" False
        channel_engine "new_pin 0 (ByChannel 0 1) ''{}''" 0 1 0 channel_engine]
    ingest_content_channel start init ingested pin
  have "channels_unresolved channel_engine_reading \<and>
      channel_maps channel_engine = Map.empty \<and>
      deref channel_engine (ByChannel 0 1) = None \<and>
      pluckTooth (new_pin 0 (ByChannel 0 1) ''{}'') channel_engine = Undefined"
    by simp
  with PlayList_channel show ?thesis by simp
qed

section \<open>The whole run\<close>

subsection \<open>What ingestion leaves alone\<close>

text \<open>
  Ingestion appends to \<open>talkieToProcess\<close> and counts; it does not touch the list of the
  pins that were played or the drag.
\<close>

lemma log_verbose_played:
  "talkieProcessed (log_verbose v line eng) = talkieProcessed eng \<and>
   total_drag (play_reporting (log_verbose v line eng)) = total_drag (play_reporting eng)"
  by (simp add: log_verbose_def)

lemma device_by_name_played:
  "device_by_name cd name port message bpm_n bpm_d eng = Ok (ref, eng') \<Longrightarrow>
     talkieProcessed eng' = talkieProcessed eng \<and> play_reporting eng' = play_reporting eng"
  by (auto simp: device_by_name_def Let_def bind_eq_Ok split: option.splits if_splits)

lemma device_by_channel_played:
  "device_by_channel cd i channel port message bpm_n bpm_d eng = Ok (ref, eng') \<Longrightarrow>
     talkieProcessed eng' = talkieProcessed eng \<and> play_reporting eng' = play_reporting eng"
  by (auto simp: device_by_channel_def Let_def bind_eq_Ok split: option.splits if_splits)

lemma ingest_element_played:
  assumes "ingest_element cd delay_ms i jsonElement (n, d, eng) = Ok (n', d', eng')"
  shows "talkieProcessed eng' = talkieProcessed eng \<and>
         total_drag (play_reporting eng') = total_drag (play_reporting eng)"
  using assms
  by (auto simp: ingest_element_def Let_def bind_eq_Ok push_pin_def split: if_splits
      dest!: device_by_name_played device_by_channel_played)

lemma ingest_content_played:
  "ingest_content cd delay_ms i es (n, d, eng) = Ok (n', d', eng') \<Longrightarrow>
     talkieProcessed eng' = talkieProcessed eng \<and>
     total_drag (play_reporting eng') = total_drag (play_reporting eng)"
proof (induction es arbitrary: n d eng)
  case Nil
  then show ?case by simp
next
  case (Cons e es)
  from Cons.prems(1) obtain n1 d1 eng1 where
    a: "ingest_element cd delay_ms i e (n, d, eng) = Ok (n1, d1, eng1)"
    and b: "ingest_content cd delay_ms i es (n1, d1, eng1) = Ok (n', d', eng')"
    by (auto simp: bind_eq_Ok)
  from ingest_element_played [OF a] Cons.IH [OF b] show ?case by simp
qed

lemma ingest_file_played:
  assumes "ingest_file cd delay_ms verbose i jsonData eng = Ok eng'"
  shows "talkieProcessed eng' = talkieProcessed eng \<and>
         total_drag (play_reporting eng') = total_drag (play_reporting eng)"
proof (cases "bind (at_key jsonData ''filetype'') (\<lambda>jsonFileType.
           bind (at_key jsonData ''url'') (\<lambda>jsonFileUrl.
           bind (at_key jsonData ''content'') (\<lambda>jsonFileContent.
             Ok (jsonFileType, jsonFileUrl, jsonFileContent))))")
  case (Ok extracted)
  obtain ty url content where x: "extracted = (ty, url, content)" by (cases extracted)
  show ?thesis
  proof (cases "ty \<noteq> JString FILE_TYPE \<or> url \<noteq> JString FILE_URL")
    case True
    with assms Ok x show ?thesis by (auto simp: ingest_file_def log_verbose_played)
  next
    case False
    define start where "start =
        (if \<not> is_array content \<or> json_empty content
         then log_verbose verbose ''JSON file is empty.'' eng else eng)
        \<lparr>channel_maps := (channel_maps eng)(i \<mapsto> Map.empty)\<rparr>"
    have s: "talkieProcessed start = talkieProcessed eng \<and>
        total_drag (play_reporting start) = total_drag (play_reporting eng)"
      by (simp add: start_def log_verbose_played)
    from False assms(1) Ok x obtain n d eng1 where
      c: "ingest_content cd delay_ms i (items content) (0, 0, start) = Ok (n, d, eng1)"
      and e: "eng' = eng1\<lparr>channel_maps := (channel_maps eng1)(i := None)\<rparr>"
      by (auto simp: ingest_file_def Let_def bind_eq_Ok log_verbose_maps start_def
          split: if_splits)
    from ingest_content_played [OF c] s e show ?thesis by simp
  qed
next
  case (Throw e)
  with assms show ?thesis by (cases e) (auto simp: ingest_file_def log_verbose_played)
qed (use assms in \<open>auto simp: ingest_file_def\<close>)

lemma ingest_files_played:
  "ingest_files cd delay_ms verbose i js eng = Ok eng' \<Longrightarrow>
     talkieProcessed eng' = talkieProcessed eng \<and>
     total_drag (play_reporting eng') = total_drag (play_reporting eng)"
proof (induction js arbitrary: i eng)
  case Nil
  then show ?case by simp
next
  case (Cons j js)
  from Cons.prems(1) obtain eng1 where
    a: "ingest_file cd delay_ms verbose i j eng = Ok eng1"
    and b: "ingest_files cd delay_ms verbose (Suc i) js eng1 = Ok eng'"
    by (auto simp: bind_eq_Ok)
  from ingest_file_played [OF a] Cons.IH [OF b] show ?case by simp
qed

lemma ingest_played:
  assumes "ingest cd json_str delay_ms verbose eng = Ok eng'"
  shows "talkieProcessed eng' = talkieProcessed eng \<and>
         total_drag (play_reporting eng') = total_drag (play_reporting eng)"
proof (cases "parse cd json_str")
  case None
  with assms show ?thesis by (auto simp: ingest_def log_verbose_played)
next
  case (Some files)
  show ?thesis
  proof (cases "ingest_files cd delay_ms verbose 0 (items files) eng")
    case (Ok eng1)
    with assms(1) Some have "eng1 = eng'" by (simp add: ingest_def)
    with ingest_files_played [OF Ok] show ?thesis by auto
  next
    case (Throw e)
    with assms Some show ?thesis by (cases e) (auto simp: ingest_def log_verbose_played)
  qed (use assms Some in \<open>auto simp: ingest_def\<close>)
qed

lemma statistics_total_drag:
  "total_drag (statistics processed r) = total_drag r"
proof -
  have a: "total_drag (fold (\<lambda>talkie_pin r.
       r\<lparr>total_delay := to_double (total_delay r + delay_time_ms talkie_pin),
         maximum_delay := max (maximum_delay r) (delay_time_ms talkie_pin)\<rparr>) ps r) = total_drag r"
    for ps r
    by (induction ps arbitrary: r) simp_all
  have b: "total_drag (fold (\<lambda>talkie_pin r.
       r\<lparr>minimum_delay := min (minimum_delay r) (delay_time_ms talkie_pin),
         sd_delay := to_double (sd_delay r +
           to_double ((to_double (delay_time_ms talkie_pin - average_delay r)) ^ 2))\<rparr>) ps r) =
       total_drag r"
    for ps r
    by (induction ps arbitrary: r) simp_all
  show ?thesis by (simp add: statistics_def Let_def a b)
qed

subsection \<open>A run of three pins\<close>

text \<open>
  The play list of three entries, played where every pin is plucked 5 ms after
  \<open>playing_start\<close>: no pass is late by more than \<open>DRAG_DURATION_MS\<close>, and the run
  completes.
\<close>

lemma ingest_three_pins:
  "ingest three_pins_lib three_pins_text 0 False (start_engine (bound_socket [])) =
     Ok three_pins_engine"
  by (simp add: ingest_def three_pins_lib_def reading_def three_pins_json_def file_json_def
      entry_json_def ingest_file_def ingest_element_def
      Let_def stamp_checksum_def checksum_braces message_id_def trunc_def device_by_name_def
      push_pin_def start_engine_def new_reporting_def three_pins_engine_def bound_socket_fields)

lemma punctual_fields:
  "lib (punctual cd setup) = cd \<and> os (punctual cd setup) = setup \<and>
   arrivals (punctual cd setup) k = ([], []) \<and> pluck_time_us (punctual cd setup) k = 5000 \<and>
   processing_ms (punctual cd setup) = 0"
  by (simp add: punctual_def)

lemma play_three_pins:
  "\<exists>played. play_loop (punctual cd os_ok) 0 (sort_pins (talkieToProcess three_pins_engine))
     (three_pins_engine\<lparr>talkieToProcess := sort_pins (talkieToProcess three_pins_engine),
        play_reporting := (play_reporting three_pins_engine)\<lparr>json_processing := 0\<rparr>\<rparr>) = Ok played"
  by (simp add: three_pins_engine_def sort_pins_def new_pin_def start_engine_def
      play_pin_def punctual_fields highResolutionSleep_def updateAddresses_def hasMessages_def
      bound_socket_fields pluckTooth_def sendMessage_def sendBroadcast_def c_round_def
      fits_long_long_def new_reporting_def process_drag_def DRAG_DURATION_MS_value)

lemma five_seconds: "to_double (1 / 200) = 5764607523034235 / 1152921504606846976"
proof -
  have "to_double (1 / 200) =
      2 powi (- 8 - 52) * of_int (round_half_even ((1 / 200) / 2 powi (- 8 - 52)))"
    by (rule to_double_eval) simp_all
  also have "\<dots> = 5764607523034235 / 1152921504606846976"
    by (simp add: round_half_even_def)
  finally show ?thesis .
qed

lemma three_pins_run:
  "\<exists>final. PlayList (punctual three_pins_lib os_ok) three_pins_text 0 False = Ok (0, final)"
proof -
  have last_pin: "time_ms (last (sort_pins (talkieToProcess three_pins_engine))) = 5"
    by (simp add: three_pins_engine_def sort_pins_def new_pin_def)
  have some: "talkieToProcess three_pins_engine \<noteq> []"
    by (simp add: three_pins_engine_def)
  from play_three_pins [of three_pins_lib] obtain played where
    "play_loop (punctual three_pins_lib os_ok) 0 (sort_pins (talkieToProcess three_pins_engine))
       (three_pins_engine\<lparr>talkieToProcess := sort_pins (talkieToProcess three_pins_engine),
          play_reporting := (play_reporting three_pins_engine)\<lparr>json_processing := 0\<rparr>\<rparr>) = Ok played"
    by blast
  with last_pin some show ?thesis
    by (simp add: PlayList_def punctual_fields initialize_os_ok ingest_three_pins five_seconds
        c_round_def fits_size_t_def)
qed

subsection \<open>The order of play\<close>



lemma play_loop_order:
  "play_loop env k pins eng = Ok eng' \<Longrightarrow>
     map pin_key (talkieProcessed eng') = map pin_key (talkieProcessed eng) @ map pin_key pins \<and>
     (pins \<noteq> [] \<longrightarrow> talkieToProcess eng' = [])"
proof (induction pins arbitrary: k eng)
  case Nil
  then show ?case by simp
next
  case (Cons pin rest)
  from Cons.prems obtain eng1 where
    a: "play_pin env k pin rest eng = Ok eng1" and b: "play_loop env (Suc k) rest eng1 = Ok eng'"
    by (cases "play_pin env k pin rest eng") auto
  from play_pin_result [OF a] obtain delay where
    p: "talkieProcessed eng1 = talkieProcessed eng @ [pin\<lparr>delay_time_ms := delay\<rparr>]"
    and r: "talkieToProcess eng1 = rest"
    by blast
  have "talkieToProcess eng' = []"
  proof (cases rest)
    case Nil
    with b r show ?thesis by simp
  next
    case (Cons q qs)
    with Cons.IH [OF b] show ?thesis by simp
  qed
  with Cons.IH [OF b] p show ?case by (simp add: pin_key_def)
qed

lemma PlayList_Ok:
  assumes "PlayList env json_str delay_ms verbose = Ok (rc, final)"
    and "fst (initialize (os env) (new_socket []))"
  shows "\<exists>eng. ingest (lib env) json_str delay_ms verbose
             (start_engine (snd (initialize (os env) (new_socket [])))) = Ok eng \<and>
           map pin_key (talkieProcessed final) = map pin_key (sort_pins (talkieToProcess eng)) \<and>
           total_drag (play_reporting eng) = 0 \<and>
           (talkieToProcess eng = [] \<longrightarrow>
              total_drag (play_reporting final) = 0) \<and>
           (talkieToProcess eng \<noteq> [] \<longrightarrow> talkieToProcess final = [] \<and>
              (\<exists>played. play_loop env 0 (sort_pins (talkieToProcess eng))
                   (eng\<lparr>talkieToProcess := sort_pins (talkieToProcess eng),
                        play_reporting := (play_reporting eng)\<lparr>json_processing := processing_ms env\<rparr>\<rparr>) =
                   Ok played \<and>
                 total_drag (play_reporting final) = total_drag (play_reporting played)))"
proof -
  let ?start = "start_engine (snd (initialize (os env) (new_socket [])))"
  from assms obtain eng where
    i: "ingest (lib env) json_str delay_ms verbose ?start = Ok eng"
    by (cases "ingest (lib env) json_str delay_ms verbose ?start")
       (auto simp: PlayList_def Let_def split: prod.splits)
  from ingest_played [OF i] have
    u: "talkieProcessed eng = []" and z: "total_drag (play_reporting eng) = 0"
    by (simp_all add: start_engine_def new_reporting_def)
  show ?thesis
  proof (cases "talkieToProcess eng = []")
    case True
    with assms i u z have "final = eng\<lparr>play_reporting := (play_reporting eng)\<lparr>json_processing := processing_ms env\<rparr>\<rparr>"
      by (auto simp: PlayList_def Let_def split: prod.splits)
    with True i u z show ?thesis by (simp add: sort_pins_def)
  next
    case False
    let ?sorted = "eng\<lparr>talkieToProcess := sort_pins (talkieToProcess eng),
        play_reporting := (play_reporting eng)\<lparr>json_processing := processing_ms env\<rparr>\<rparr>"
    from False assms i obtain played where
      l: "play_loop env 0 (sort_pins (talkieToProcess eng)) ?sorted = Ok played"
      and f: "final = played\<lparr>play_reporting := statistics (talkieProcessed played) (play_reporting played)\<rparr>"
      by (auto simp: PlayList_def Let_def bind_eq_Ok split: prod.splits if_splits)
    have "length (sort_pins (talkieToProcess eng)) = length (talkieToProcess eng)"
      by (simp add: sort_pins_def)
    with False have n: "sort_pins (talkieToProcess eng) \<noteq> []"
      by (metis length_0_conv)
    from play_loop_order [OF l] u n have
      "map pin_key (talkieProcessed played) = map pin_key (sort_pins (talkieToProcess eng))"
      and "talkieToProcess played = []"
      by simp_all
    with f i z l False show ?thesis by (simp add: statistics_total_drag)
  qed
qed

subsection \<open>The drag over a run\<close>

lemma play_first_of_two:
  "play_pin (slipping cd os_ok) 0 one_pin [one_pin] two_pins_engine = Ok first_pin_played"
  using play_one_pin_in [of "slipping cd os_ok" cd 0 "[one_pin]" "[one_pin, one_pin]"]
  by (simp add: slipping_def two_pins_engine_def first_pin_played_def one_pin_engine_def
      one_pin_played_def)

lemma play_two_pins:
  "play_loop (slipping cd os_ok) 0 [one_pin, one_pin] two_pins_engine = Ok second_pin_played"
  by (simp add: play_first_of_two play_second_pin)

lemma two_pins_fields:
  "total_drag (play_reporting two_pins_engine) = 0 \<and>
   total_drag (play_reporting first_pin_played) = 6978233797618347 / 70368744177664 \<and>
   total_drag (play_reporting second_pin_played) = 3489140355057233 / 35184372088832 \<and>
   delay_time_ms (last (talkieProcessed first_pin_played)) = 120 \<and>
   delay_time_ms (last (talkieProcessed second_pin_played)) =
     5864249664789807 / 281474976710656"
  by (simp add: two_pins_engine_def first_pin_played_def second_pin_played_def
      one_pin_engine_def new_reporting_def)

text \<open>
  Claim C7, as stated, fails: \<open>total_drag\<close> is a \<open>double\<close> and \<open>+=\<close> rounds. Two pins
  are due at 0 ms. The first is plucked at 120 ms, so its delay of 120 ms exceeds
  \<open>DRAG_DURATION_MS\<close>, and \<open>total_drag\<close> goes from 0 to \<open>6978233797618347 / 2^46\<close>, which
  is not \<open>120 - DRAG_DURATION_MS\<close>. The second, moved to 99.167 ms, is plucked at
  120.001 ms, so its delay, the double nearest to 20.834, exceeds \<open>DRAG_DURATION_MS\<close>, and
  \<open>total_drag\<close> goes to \<open>3489140355057233 / 2^45\<close>, which is neither the old value plus
  the exact difference (the two are the same number here) nor the old value plus the
  difference rounded to a double. \<open>DRAG_DURATION_MS\<close> itself is the double nearest to
  \<open>1000/48\<close>, not that fraction.
\<close>

theorem total_drag_increase_counterexample:
  "play_pin (slipping (reading [] JNull) os_ok) 0 one_pin [one_pin] two_pins_engine =
     Ok first_pin_played \<and>
   play_pin (slipping (reading [] JNull) os_ok) 1 one_pin [] first_pin_played =
     Ok second_pin_played \<and>
   delay_time_ms (last (talkieProcessed first_pin_played)) > DRAG_DURATION_MS \<and>
   total_drag (play_reporting first_pin_played) \<noteq>
     total_drag (play_reporting two_pins_engine) +
       (delay_time_ms (last (talkieProcessed first_pin_played)) - DRAG_DURATION_MS) \<and>
   delay_time_ms (last (talkieProcessed second_pin_played)) > DRAG_DURATION_MS \<and>
   total_drag (play_reporting second_pin_played) \<noteq>
     total_drag (play_reporting first_pin_played) +
       (delay_time_ms (last (talkieProcessed second_pin_played)) - DRAG_DURATION_MS) \<and>
   total_drag (play_reporting second_pin_played) \<noteq>
     total_drag (play_reporting first_pin_played) +
       to_double (delay_time_ms (last (talkieProcessed second_pin_played)) - DRAG_DURATION_MS) \<and>
   DRAG_DURATION_MS \<noteq> 1000 / 48"
proof -
  have a: "play_pin (slipping (reading [] JNull) os_ok) 0 one_pin [one_pin] two_pins_engine =
      Ok first_pin_played"
    by (rule play_first_of_two)
  have b: "play_pin (slipping (reading [] JNull) os_ok) 1 one_pin [] first_pin_played =
      Ok second_pin_played"
    using play_second_pin [of "reading [] JNull"] by simp
  have c: "to_double (5864249664789807 / 281474976710656 - DRAG_DURATION_MS) =
      93824992237 / 140737488355328"
    by (simp add: DRAG_DURATION_MS_value second_excess)
  show ?thesis
    using a b by (simp add: two_pins_fields c) (simp add: DRAG_DURATION_MS_value)
qed

text \<open>
  Claim C7, amended. \<open>DRAG_DURATION_MS\<close> is the double nearest to \<open>1000/48\<close>, which is
  \<open>5864062014805333 / 2^48\<close>, between 20.8333 and 20.8334. A pass of the playing loop that
  completes and has measured (and stored on the pin) a delay above \<open>DRAG_DURATION_MS\<close>
  sets \<open>total_drag\<close> to the double nearest to the sum of \<open>total_drag\<close> and the double
  nearest to \<open>delay_ms - DRAG_DURATION_MS\<close>; any other pass that completes leaves
  \<open>total_drag\<close> as it is. When \<open>total_drag\<close> holds a double that is not negative, it
  holds one after any run of the loop that completes, and one that is not smaller. This is
  so in \<open>PlayList\<close>, where \<open>total_drag\<close> is 0 when the loop starts: a completed
  \<open>PlayList\<close> ends with a \<open>total_drag\<close> that is a double and not negative.
\<close>

theorem total_drag_rounded_accumulation:
  "DRAG_DURATION_MS = 5864062014805333 / 2 ^ 48 \<and>
   20.8333 < DRAG_DURATION_MS \<and> DRAG_DURATION_MS < 20.8334 \<and>
   (play_pin env k pin rest eng = Ok eng' \<longrightarrow>
      total_drag (play_reporting eng') =
        (if delay_time_ms (last (talkieProcessed eng')) > DRAG_DURATION_MS
         then to_double (total_drag (play_reporting eng) +
                to_double (delay_time_ms (last (talkieProcessed eng')) - DRAG_DURATION_MS))
         else total_drag (play_reporting eng))) \<and>
   (play_loop env k pins eng = Ok eng'' \<and>
    0 \<le> total_drag (play_reporting eng) \<and> is_double (total_drag (play_reporting eng)) \<longrightarrow>
      total_drag (play_reporting eng) \<le> total_drag (play_reporting eng'') \<and>
      is_double (total_drag (play_reporting eng''))) \<and>
   (PlayList env json_str delay_ms verbose = Ok (rc, final) \<longrightarrow>
      0 \<le> total_drag (play_reporting final) \<and> is_double (total_drag (play_reporting final)))"
proof (intro conjI impI)
  show "DRAG_DURATION_MS = 5864062014805333 / 2 ^ 48" by (simp add: DRAG_DURATION_MS_value)
  show "20.8333 < DRAG_DURATION_MS" by (simp add: DRAG_DURATION_MS_value)
  show "DRAG_DURATION_MS < 20.8334" by (simp add: DRAG_DURATION_MS_value)
next
  assume "play_pin env k pin rest eng = Ok eng'"
  from play_pin_result [OF this] show "total_drag (play_reporting eng') =
        (if delay_time_ms (last (talkieProcessed eng')) > DRAG_DURATION_MS
         then to_double (total_drag (play_reporting eng) +
                to_double (delay_time_ms (last (talkieProcessed eng')) - DRAG_DURATION_MS))
         else total_drag (play_reporting eng))"
    by (auto simp: process_drag_def)
next
  assume a: "play_loop env k pins eng = Ok eng'' \<and>
    0 \<le> total_drag (play_reporting eng) \<and> is_double (total_drag (play_reporting eng))"
  then have m: "total_drag (play_reporting eng) \<le> total_drag (play_reporting eng'') \<and>
      is_double (total_drag (play_reporting eng''))"
    using play_loop_mono [of env k pins eng eng''] by simp
  from m show "total_drag (play_reporting eng) \<le> total_drag (play_reporting eng'')" by simp
  from m show "is_double (total_drag (play_reporting eng''))" by simp
next
  assume p: "PlayList env json_str delay_ms verbose = Ok (rc, final)"
  have "0 \<le> total_drag (play_reporting final) \<and> is_double (total_drag (play_reporting final))"
  proof (cases "fst (initialize (os env) (new_socket []))")
    case False
    with p have "final = start_engine (snd (initialize (os env) (new_socket [])))"
      by (auto simp: PlayList_def Let_def split: prod.splits)
    then show ?thesis by (simp add: start_engine_def new_reporting_def is_double_0)
  next
    case True
    from PlayList_Ok [OF p True] obtain eng where
      z: "total_drag (play_reporting eng) = 0"
      and e: "talkieToProcess eng = [] \<longrightarrow> total_drag (play_reporting final) = 0"
      and l: "talkieToProcess eng \<noteq> [] \<longrightarrow>
         (\<exists>played. play_loop env 0 (sort_pins (talkieToProcess eng))
                   (eng\<lparr>talkieToProcess := sort_pins (talkieToProcess eng),
                        play_reporting := (play_reporting eng)\<lparr>json_processing := processing_ms env\<rparr>\<rparr>) =
                   Ok played \<and>
                 total_drag (play_reporting final) = total_drag (play_reporting played))"
      by blast
    show ?thesis
    proof (cases "talkieToProcess eng = []")
      case True
      with e show ?thesis by (simp add: is_double_0)
    next
      case False
      with l obtain played where
        r: "play_loop env 0 (sort_pins (talkieToProcess eng))
                   (eng\<lparr>talkieToProcess := sort_pins (talkieToProcess eng),
                        play_reporting := (play_reporting eng)\<lparr>json_processing := processing_ms env\<rparr>\<rparr>) =
                   Ok played"
        and f: "total_drag (play_reporting final) = total_drag (play_reporting played)"
        by blast
      from play_loop_mono [OF r] z f show ?thesis by (simp add: is_double_0)
    qed
  qed
  then show "0 \<le> total_drag (play_reporting final)"
    and "is_double (total_drag (play_reporting final))" by simp_all
qed

theorem total_drag_rounded_accumulation_witness:
  "play_pin (slipping (reading [] JNull) os_ok) 0 one_pin [one_pin] two_pins_engine =
     Ok first_pin_played \<and>
   delay_time_ms (last (talkieProcessed first_pin_played)) = 120 \<and>
   total_drag (play_reporting two_pins_engine) = 0 \<and>
   total_drag (play_reporting first_pin_played) = to_double (0 + to_double (120 - DRAG_DURATION_MS)) \<and>
   total_drag (play_reporting first_pin_played) = 6978233797618347 / 2 ^ 46 \<and>
   play_loop (slipping (reading [] JNull) os_ok) 0 [one_pin, one_pin] two_pins_engine =
     Ok second_pin_played \<and>
   total_drag (play_reporting two_pins_engine) \<le> total_drag (play_reporting second_pin_played) \<and>
   is_double (total_drag (play_reporting second_pin_played)) \<and>
   (\<exists>final. PlayList (punctual three_pins_lib os_ok) three_pins_text 0 False = Ok (0, final) \<and>
      0 \<le> total_drag (play_reporting final) \<and> is_double (total_drag (play_reporting final)))"
proof -
  have a: "play_pin (slipping (reading [] JNull) os_ok) 0 one_pin [one_pin] two_pins_engine =
      Ok first_pin_played"
    by (rule play_first_of_two)
  have b: "play_loop (slipping (reading [] JNull) os_ok) 0 [one_pin, one_pin] two_pins_engine =
      Ok second_pin_played"
    by (rule play_two_pins)
  have c: "120 > DRAG_DURATION_MS" by (simp add: DRAG_DURATION_MS_value)
  from three_pins_run obtain final where
    r: "PlayList (punctual three_pins_lib os_ok) three_pins_text 0 False = Ok (0, final)"
    by blast
  from total_drag_rounded_accumulation
      [where env = "slipping (reading [] JNull) os_ok" and k = 0 and pin = one_pin
         and rest = "[one_pin]" and eng = two_pins_engine and eng' = first_pin_played
         and pins = "[one_pin, one_pin]" and eng'' = second_pin_played]
    a b c
  have "total_drag (play_reporting first_pin_played) =
          to_double (0 + to_double (120 - DRAG_DURATION_MS)) \<and>
        total_drag (play_reporting two_pins_engine) \<le> total_drag (play_reporting second_pin_played) \<and>
        is_double (total_drag (play_reporting second_pin_played))"
    by (simp add: two_pins_fields is_double_0)
  moreover from total_drag_rounded_accumulation
      [where env = "punctual three_pins_lib os_ok" and json_str = three_pins_text
         and delay_ms = 0 and verbose = False and rc = 0 and final = final] r
  have "0 \<le> total_drag (play_reporting final) \<and> is_double (total_drag (play_reporting final))"
    by simp
  ultimately show ?thesis using a b r by (auto simp: two_pins_fields)
qed

subsection \<open>The pins are played in sorted order\<close>





end
